theory Spec2Isabelle
  imports Complex_Main "HOL-Library.AList"
begin

section \<open>Values shared by the recognizer and the model selectors\<close>

text \<open>
  Exceptions that the Python code can meet. Every \<^verbatim>\<open>except:\<close> of the source is a bare
  one, so the code never looks at which exception it caught; the names are kept for the
  reader.
\<close>

datatype exn = KeyError | IndexError | AttributeError | UnboundLocalError
  | ZeroDivisionError | LibraryError

text \<open>
  The scores the code compares: a log-likelihood (or a value computed from some), or one
  of the sentinels \<^verbatim>\<open>float("-inf")\<close> and \<^verbatim>\<open>float("inf")\<close> that the code writes itself.
  Log-likelihoods are real numbers here; rounding and NaN are outside this model.
\<close>

datatype pyfloat = NegInf | Fin real | PosInf

instantiation pyfloat :: linorder
begin

fun less_eq_pyfloat :: "pyfloat \<Rightarrow> pyfloat \<Rightarrow> bool" where
  "less_eq_pyfloat NegInf _ = True"
| "less_eq_pyfloat (Fin a) NegInf = False"
| "less_eq_pyfloat (Fin a) (Fin b) = (a \<le> b)"
| "less_eq_pyfloat (Fin a) PosInf = True"
| "less_eq_pyfloat PosInf PosInf = True"
| "less_eq_pyfloat PosInf _ = False"

fun less_pyfloat :: "pyfloat \<Rightarrow> pyfloat \<Rightarrow> bool" where
  "less_pyfloat _ NegInf = False"
| "less_pyfloat NegInf _ = True"
| "less_pyfloat (Fin a) (Fin b) = (a < b)"
| "less_pyfloat (Fin a) PosInf = True"
| "less_pyfloat PosInf _ = False"

instance
proof
  fix x y z :: pyfloat
  show "(x < y) = (x \<le> y \<and> \<not> y \<le> x)"
    by (cases x; cases y) auto
  show "x \<le> x"
    by (cases x) auto
  show "x \<le> y \<Longrightarrow> y \<le> z \<Longrightarrow> x \<le> z"
    by (cases x; cases y; cases z) auto
  show "x \<le> y \<Longrightarrow> y \<le> x \<Longrightarrow> x = y"
    by (cases x; cases y) auto
  show "x \<le> y \<or> y \<le> x"
    by (cases x; cases y) auto
qed

end

text \<open>
  Observation data as hmmlearn takes it: the frames of one or more sequences laid end to
  end (\<^verbatim>\<open>X\<close>, one row per frame) and the length of each sequence (\<^verbatim>\<open>lengths\<close>).
\<close>

type_synonym frame = "real list"
type_synonym xlengths = "frame list \<times> nat list"

text \<open>
  The libraries the code calls, as parameters. \<open>hmm_fit k seed (X, lengths)\<close> is
  \<^verbatim>\<open>GaussianHMM(n_components=k, covariance_type="diag", n_iter=1000, random_state=seed,
  verbose=False).fit(X, lengths)\<close> and \<open>hmm_score m (X, lengths)\<close> is
  \<^verbatim>\<open>m.score(X, lengths)\<close>; \<open>None\<close> is a call that raises. \<open>hmm_n_features m\<close> is the
  attribute \<^verbatim>\<open>m.n_features\<close> of a fitted model. \<open>kfold_split n_splits n\<close> is
  \<^verbatim>\<open>KFold(n_splits).split(s)\<close> for a sequence \<^verbatim>\<open>s\<close> of \<open>n\<close> elements: the list of
  (train indices, test indices) pairs.
\<close>

record 'm library =
  hmm_fit :: "int \<Rightarrow> int \<Rightarrow> xlengths \<Rightarrow> 'm option"
  hmm_score :: "'m \<Rightarrow> xlengths \<Rightarrow> real option"
  hmm_n_features :: "'m \<Rightarrow> nat"
  kfold_split :: "nat \<Rightarrow> nat \<Rightarrow> (nat list \<times> nat list) list"

section \<open>The recognizer (my\_recognizer.py)\<close>

text \<open>
  Modelled from the spec: the class \<^verbatim>\<open>SinglesData\<close> (asl\_data.py) is not among the
  sources. The spec describes it as a test collection exposing, per index, an
  observation-sequence/length pair and supporting enumeration of all indices. It is a
  list of such pairs here; reading an index that is not there raises.
\<close>

type_synonym singles_data = "xlengths list"

definition get_all_Xlengths :: "singles_data \<Rightarrow> xlengths list" where
  "get_all_Xlengths test_set = test_set"

definition get_item_Xlengths :: "singles_data \<Rightarrow> nat \<Rightarrow> exn + xlengths" where
  "get_item_Xlengths test_set item =
     (if item < length test_set then Inr (test_set ! item) else Inl KeyError)"

text \<open>
  A Python dict is an association list in insertion order: \<open>AList.update\<close> overwrites the
  value of a key that is present, in place, and appends a new key at the end, as
  \<^verbatim>\<open>d[k] = v\<close> does. The dict \<^verbatim>\<open>models\<close> is the list of its items; its keys are distinct.
\<close>

type_synonym 'm models = "(string \<times> 'm) list"
type_synonym word_prob = "(string \<times> pyfloat) list"

text \<open>
  The body of \<^verbatim>\<open>try: score = model.score(current_x, current_length)\<close> with its
  \<^verbatim>\<open>except: score = float("-inf")\<close>.
\<close>

definition try_score :: "'m library \<Rightarrow> 'm \<Rightarrow> xlengths \<Rightarrow> pyfloat" where
  "try_score lib model current =
     (case hmm_score lib model current of
        Some logL \<Rightarrow> Fin logL
      | None \<Rightarrow> NegInf)"

text \<open>
  The inner loop \<^verbatim>\<open>for word, model in models.items()\<close>: the state is
  \<^verbatim>\<open>best_score\<close>, \<^verbatim>\<open>best_guess\<close> and \<^verbatim>\<open>word_prob\<close>.
\<close>

fun score_models ::
  "'m library \<Rightarrow> xlengths \<Rightarrow> 'm models \<Rightarrow> pyfloat \<times> string option \<times> word_prob
     \<Rightarrow> pyfloat \<times> string option \<times> word_prob" where
  "score_models lib current [] st = st"
| "score_models lib current ((word, model) # rest) (best_score, best_guess, word_prob) =
     (let score = try_score lib model current
      in if score > best_score
         then score_models lib current rest (score, Some word, AList.update word score word_prob)
         else score_models lib current rest (best_score, best_guess, AList.update word score word_prob))"

text \<open>The outer loop \<^verbatim>\<open>for word_index in range(0, len(test_set.get_all_Xlengths()))\<close>.\<close>

fun recognize_loop ::
  "'m library \<Rightarrow> 'm models \<Rightarrow> singles_data \<Rightarrow> nat list
     \<Rightarrow> word_prob list \<times> string option list \<Rightarrow> exn + (word_prob list \<times> string option list)" where
  "recognize_loop lib models test_set [] (probabilities, guesses) = Inr (probabilities, guesses)"
| "recognize_loop lib models test_set (word_index # later) (probabilities, guesses) =
     (case get_item_Xlengths test_set word_index of
        Inl e \<Rightarrow> Inl e
      | Inr current \<Rightarrow>
          (case score_models lib current models (NegInf, None, []) of
             (best_score, best_guess, word_prob) \<Rightarrow>
               recognize_loop lib models test_set later
                 (probabilities @ [word_prob], guesses @ [best_guess])))"

definition recognize ::
  "'m library \<Rightarrow> 'm models \<Rightarrow> singles_data \<Rightarrow> exn + (word_prob list \<times> string option list)" where
  "recognize lib models test_set =
     recognize_loop lib models test_set [0..<length (get_all_Xlengths test_set)] ([], [])"

section \<open>The model selectors (my\_model\_selectors.py)\<close>

subsection \<open>ModelSelector\<close>

text \<open>
  The example sequences of a word: each sequence is a list of frames. The two dicts given
  to the constructor are association lists in insertion order, read with \<open>map_of\<close>.
\<close>

type_synonym word_sequences = "frame list list"

record selector =
  words :: "(string \<times> word_sequences) list"
  hwords :: "(string \<times> xlengths) list"
  sequences :: word_sequences
  X :: "frame list"
  lengths :: "nat list"
  this_word :: string
  n_constant :: int
  min_n_components :: int
  max_n_components :: int
  random_state :: int
  verbose :: bool

text \<open>
  \<^verbatim>\<open>__init__\<close>: the two subscripts \<^verbatim>\<open>all_word_sequences[this_word]\<close> and
  \<^verbatim>\<open>all_word_Xlengths[this_word]\<close> raise KeyError for a missing word; every other
  argument is stored as it is.
\<close>

definition init ::
  "(string \<times> word_sequences) list \<Rightarrow> (string \<times> xlengths) list \<Rightarrow> string
     \<Rightarrow> int \<Rightarrow> int \<Rightarrow> int \<Rightarrow> int \<Rightarrow> bool \<Rightarrow> exn + selector" where
  "init all_word_sequences all_word_Xlengths word n_const min_n max_n seed verb =
     (case map_of all_word_sequences word of
        None \<Rightarrow> Inl KeyError
      | Some seqs \<Rightarrow>
          (case map_of all_word_Xlengths word of
             None \<Rightarrow> Inl KeyError
           | Some (x, lens) \<Rightarrow>
               Inr \<lparr>words = all_word_sequences, hwords = all_word_Xlengths,
                    sequences = seqs, X = x, lengths = lens, this_word = word,
                    n_constant = n_const, min_n_components = min_n,
                    max_n_components = max_n, random_state = seed, verbose = verb\<rparr>))"

text \<open>
  \<^verbatim>\<open>base_model\<close>: the fit inside \<^verbatim>\<open>try\<close>, \<^verbatim>\<open>return None\<close> in the \<^verbatim>\<open>except\<close>. The
  prints under \<^verbatim>\<open>self.verbose\<close> change no result and are left out.
\<close>

definition base_model :: "'m library \<Rightarrow> selector \<Rightarrow> int \<Rightarrow> 'm option" where
  "base_model lib self num_states =
     (case hmm_fit lib num_states (random_state self) (X self, lengths self) of
        Some hmm_model \<Rightarrow> Some hmm_model
      | None \<Rightarrow> None)"

subsection \<open>SelectorConstant\<close>

definition select_constant :: "'m library \<Rightarrow> selector \<Rightarrow> 'm option" where
  "select_constant lib self =
     (let best_num_components = n_constant self
      in base_model lib self best_num_components)"

subsection \<open>SelectorBIC\<close>

text \<open>
  The body of the \<^verbatim>\<open>try\<close> up to the comparison, for one \<^verbatim>\<open>n_component\<close>:
  \<^verbatim>\<open>base_model\<close> may return \<^verbatim>\<open>None\<close>, on which \<^verbatim>\<open>model.score\<close> raises AttributeError.
  \<^verbatim>\<open>self.X.shape[0]\<close> is the number of rows of \<^verbatim>\<open>X\<close>. (For an empty \<^verbatim>\<open>X\<close> numpy's
  \<^verbatim>\<open>log(0)\<close> is not a real number; the theorems about this function assume a frame.)
\<close>

definition bic_try :: "'m library \<Rightarrow> selector \<Rightarrow> int \<Rightarrow> exn + ('m \<times> real)" where
  "bic_try lib self n_component =
     (case base_model lib self n_component of
        None \<Rightarrow> Inl AttributeError
      | Some model \<Rightarrow>
          (case hmm_score lib model (X self, lengths self) of
             None \<Rightarrow> Inl LibraryError
           | Some logL \<Rightarrow>
               (let p = n_component ^ 2 + 2 * n_component * int (hmm_n_features lib model) - 1;
                    bic_score = (- 2 * logL) + (of_int p * ln (real (length (X self))))
                in Inr (model, bic_score))))"

text \<open>
  The loop over \<^verbatim>\<open>range(self.min_n_components, self.max_n_components+1)\<close>; the
  \<^verbatim>\<open>except: pass\<close> leaves \<^verbatim>\<open>best_bic_score\<close> and \<^verbatim>\<open>best_model\<close> as they are.
\<close>

fun bic_loop ::
  "'m library \<Rightarrow> selector \<Rightarrow> int list \<Rightarrow> pyfloat \<times> 'm option \<Rightarrow> pyfloat \<times> 'm option" where
  "bic_loop lib self [] st = st"
| "bic_loop lib self (n_component # ns) (best_bic_score, best_model) =
     (case bic_try lib self n_component of
        Inl e \<Rightarrow> bic_loop lib self ns (best_bic_score, best_model)
      | Inr (model, bic_score) \<Rightarrow>
          if Fin bic_score < best_bic_score
          then bic_loop lib self ns (Fin bic_score, Some model)
          else bic_loop lib self ns (best_bic_score, best_model))"

definition select_bic :: "'m library \<Rightarrow> selector \<Rightarrow> 'm option" where
  "select_bic lib self =
     snd (bic_loop lib self [min_n_components self..max_n_components self] (PosInf, None))"

subsection \<open>SelectorDIC\<close>

text \<open>
  The inner loop \<^verbatim>\<open>for word in aginst_words\<close>: \<^verbatim>\<open>self.hwords[word]\<close> raises KeyError
  for a word without data, \<^verbatim>\<open>model.score\<close> may raise.
\<close>

fun sum_other_scores ::
  "'m library \<Rightarrow> selector \<Rightarrow> 'm \<Rightarrow> string list \<Rightarrow> real \<Rightarrow> exn + real" where
  "sum_other_scores lib self model [] sum_other_logL = Inr sum_other_logL"
| "sum_other_scores lib self model (word # ws) sum_other_logL =
     (case map_of (hwords self) word of
        None \<Rightarrow> Inl KeyError
      | Some (other_x, other_lengths) \<Rightarrow>
          (case hmm_score lib model (other_x, other_lengths) of
             None \<Rightarrow> Inl LibraryError
           | Some other_logL \<Rightarrow>
               sum_other_scores lib self model ws (sum_other_logL + other_logL)))"

text \<open>
  The body of the \<^verbatim>\<open>try\<close> up to the comparison. The division by
  \<^verbatim>\<open>len(self.words)-1\<close> raises ZeroDivisionError when that is zero.
\<close>

definition dic_try :: "'m library \<Rightarrow> selector \<Rightarrow> string list \<Rightarrow> int \<Rightarrow> exn + ('m \<times> real)" where
  "dic_try lib self aginst_words n_component =
     (case base_model lib self n_component of
        None \<Rightarrow> Inl AttributeError
      | Some model \<Rightarrow>
          (case hmm_score lib model (X self, lengths self) of
             None \<Rightarrow> Inl LibraryError
           | Some logL \<Rightarrow>
               (case sum_other_scores lib self model aginst_words 0 of
                  Inl e \<Rightarrow> Inl e
                | Inr sum_other_logL \<Rightarrow>
                    if int (length (words self)) - 1 = 0 then Inl ZeroDivisionError
                    else Inr (model,
                      logL - sum_other_logL / of_int (int (length (words self)) - 1)))))"

fun dic_loop ::
  "'m library \<Rightarrow> selector \<Rightarrow> string list \<Rightarrow> int list \<Rightarrow> pyfloat \<times> 'm option
     \<Rightarrow> pyfloat \<times> 'm option" where
  "dic_loop lib self aginst_words [] st = st"
| "dic_loop lib self aginst_words (n_component # ns) (best_dic_score, best_model) =
     (case dic_try lib self aginst_words n_component of
        Inl e \<Rightarrow> dic_loop lib self aginst_words ns (best_dic_score, best_model)
      | Inr (model, dic_score) \<Rightarrow>
          if Fin dic_score > best_dic_score
          then dic_loop lib self aginst_words ns (Fin dic_score, Some model)
          else dic_loop lib self aginst_words ns (best_dic_score, best_model))"

definition select_dic :: "'m library \<Rightarrow> selector \<Rightarrow> 'm option" where
  "select_dic lib self =
     (let aginst_words = filter (\<lambda>word. word \<noteq> this_word self) (map fst (words self))
      in snd (dic_loop lib self aginst_words
                [min_n_components self..max_n_components self] (NegInf, None)))"

subsection \<open>SelectorCV\<close>

text \<open>
  Modelled from the spec: \<^verbatim>\<open>combine_sequences\<close> (asl\_utils.py) is not among the sources.
  The spec has a fold's model fit on the concatenation of the other folds' sequences and
  scored on the held-out fold's concatenation: the sequences at the given indices are
  laid end to end, with the list of their lengths. An index outside the list raises.
\<close>

definition combine_sequences :: "nat list \<Rightarrow> word_sequences \<Rightarrow> exn + xlengths" where
  "combine_sequences split_index_list seqs =
     (if \<forall>idx\<in>set split_index_list. idx < length seqs
      then Inr (concat (map (\<lambda>idx. seqs ! idx) split_index_list),
                map (\<lambda>idx. length (seqs ! idx)) split_index_list)
      else Inl IndexError)"

text \<open>
  The loop \<^verbatim>\<open>for cv_train_idx, cv_test_idx in split_method.split(self.sequences)\<close>. Its
  state is \<^verbatim>\<open>score\<close>, \<^verbatim>\<open>iter_num\<close> and the local variable \<^verbatim>\<open>model\<close> (unbound until its
  first assignment). No \<^verbatim>\<open>try\<close> stands inside the loop: a call that raises ends it, and
  the exception goes on to the \<^verbatim>\<open>except\<close> around the whole candidate. The result is the
  exception or the final \<^verbatim>\<open>score\<close> and \<^verbatim>\<open>iter_num\<close>, with the variable \<^verbatim>\<open>model\<close> as the loop
  left it.
\<close>

fun cv_folds ::
  "'m library \<Rightarrow> selector \<Rightarrow> int \<Rightarrow> (nat list \<times> nat list) list \<Rightarrow> real \<times> nat \<times> 'm option
     \<Rightarrow> (exn + real \<times> nat) \<times> 'm option" where
  "cv_folds lib self n_component [] (score, iter_num, model) = (Inr (score, iter_num), model)"
| "cv_folds lib self n_component ((cv_train_idx, cv_test_idx) # folds) (score, iter_num, model) =
     (case combine_sequences cv_train_idx (sequences self) of
        Inl e \<Rightarrow> (Inl e, model)
      | Inr (X_train, length_train) \<Rightarrow>
          (case combine_sequences cv_test_idx (sequences self) of
             Inl e \<Rightarrow> (Inl e, model)
           | Inr (X_test, length_test) \<Rightarrow>
               (case hmm_fit lib n_component (random_state self) (X_train, length_train) of
                  None \<Rightarrow> (Inl LibraryError, model)
                | Some fitted \<Rightarrow>
                    (case hmm_score lib fitted (X_test, length_test) of
                       None \<Rightarrow> (Inl LibraryError, Some fitted)
                     | Some logL \<Rightarrow>
                         cv_folds lib self n_component folds
                           (score + logL, iter_num + 1, Some fitted)))))"

text \<open>
  The block under \<^verbatim>\<open># Keep best score and best model\<close>. The state is \<^verbatim>\<open>best_score\<close>,
  \<^verbatim>\<open>best_model\<close> and the variable \<^verbatim>\<open>model\<close>. \<^verbatim>\<open>best_score\<close> is assigned first; the fit on
  the full data comes after it and may raise.
\<close>

definition cv_keep_best ::
  "'m library \<Rightarrow> selector \<Rightarrow> int \<Rightarrow> real \<Rightarrow> 'm option \<Rightarrow> pyfloat \<times> 'm option \<times> 'm option
     \<Rightarrow> (exn + unit) \<times> pyfloat \<times> 'm option \<times> 'm option" where
  "cv_keep_best lib self n_component score last_model st =
     (case st of (best_score, best_model, model) \<Rightarrow>
        if best_score < Fin score
        then (case last_model of
                None \<Rightarrow>
                  (case hmm_fit lib n_component (random_state self) (X self, lengths self) of
                     None \<Rightarrow> (Inl LibraryError, Fin score, best_model, model)
                   | Some refit \<Rightarrow> (Inr (), Fin score, Some refit, model))
              | Some fitted \<Rightarrow> (Inr (), Fin score, Some fitted, model))
        else (Inr (), best_score, best_model, model))"

text \<open>
  The body of the \<^verbatim>\<open>try\<close> for one \<^verbatim>\<open>n_component\<close>. In the first branch the code reads
  the variable \<^verbatim>\<open>model\<close>, not \<^verbatim>\<open>last_model\<close>: an unbound \<^verbatim>\<open>model\<close> raises
  UnboundLocalError. The division \<^verbatim>\<open>score / iter_num\<close> raises for \<^verbatim>\<open>iter_num = 0\<close>.
\<close>

definition cv_try ::
  "'m library \<Rightarrow> selector \<Rightarrow> int \<Rightarrow> pyfloat \<times> 'm option \<times> 'm option
     \<Rightarrow> (exn + unit) \<times> pyfloat \<times> 'm option \<times> 'm option" where
  "cv_try lib self n_component st =
     (case st of (best_score, best_model, model) \<Rightarrow>
        if length (sequences self) \<le> 1
        then (case hmm_fit lib n_component (random_state self) (X self, lengths self) of
                None \<Rightarrow> (Inl LibraryError, best_score, best_model, model)
              | Some last_model \<Rightarrow>
                  (case model of
                     None \<Rightarrow> (Inl UnboundLocalError, best_score, best_model, model)
                   | Some bound \<Rightarrow>
                       (case hmm_score lib bound (X self, lengths self) of
                          None \<Rightarrow> (Inl LibraryError, best_score, best_model, model)
                        | Some score \<Rightarrow>
                            cv_keep_best lib self n_component score (Some last_model)
                              (best_score, best_model, model))))
        else (let num_splits = min (length (sequences self)) 3;
                  split_method = kfold_split lib num_splits
              in case cv_folds lib self n_component
                        (split_method (length (sequences self))) (0, 0, model) of
                   (Inl e, model') \<Rightarrow> (Inl e, best_score, best_model, model')
                 | (Inr (score, iter_num), model') \<Rightarrow>
                     if iter_num = 0
                     then (Inl ZeroDivisionError, best_score, best_model, model')
                     else cv_keep_best lib self n_component (score / real iter_num) None
                            (best_score, best_model, model')))"

text \<open>The loop over the candidates: \<^verbatim>\<open>except: pass\<close> keeps the state the body left.\<close>

fun cv_loop ::
  "'m library \<Rightarrow> selector \<Rightarrow> int list \<Rightarrow> pyfloat \<times> 'm option \<times> 'm option
     \<Rightarrow> pyfloat \<times> 'm option \<times> 'm option" where
  "cv_loop lib self [] st = st"
| "cv_loop lib self (n_component # ns) st = cv_loop lib self ns (snd (cv_try lib self n_component st))"

definition select_cv :: "'m library \<Rightarrow> selector \<Rightarrow> 'm option" where
  "select_cv lib self =
     fst (snd (cv_loop lib self [min_n_components self..max_n_components self]
                 (NegInf, None, None)))"

section \<open>Concrete libraries and data for the examples\<close>

text \<open>
  scikit-learn's \<^verbatim>\<open>KFold(n_splits).split\<close> without shuffling, for \<open>n\<close> samples: fold \<open>i\<close>
  holds out a block of consecutive indices, the first \<open>n mod n_splits\<close> blocks one longer
  than the others, and trains on the remaining indices in order.
\<close>

definition sklearn_kfold :: "nat \<Rightarrow> nat \<Rightarrow> (nat list \<times> nat list) list" where
  "sklearn_kfold n_splits n =
     map (\<lambda>i. let start = i * (n div n_splits) + min i (n mod n_splits);
                  stop = start + n div n_splits + (if i < n mod n_splits then 1 else 0)
              in (filter (\<lambda>j. j < start \<or> stop \<le> j) [0..<n], [start..<stop]))
       [0..<n_splits]"

text \<open>
  A library for the examples. A model is the pair of its state count and the data it was
  fit on, so that a model shows what it was trained on; which fits succeed and what a
  model scores are parameters.
\<close>

type_synonym toy_model = "int \<times> xlengths"

definition toy_library ::
  "(int \<Rightarrow> xlengths \<Rightarrow> bool) \<Rightarrow> (toy_model \<Rightarrow> xlengths \<Rightarrow> real option) \<Rightarrow> toy_model library" where
  "toy_library fits scores =
     \<lparr>hmm_fit = (\<lambda>k seed d. if fits k d then Some (k, d) else None),
      hmm_score = scores,
      hmm_n_features = (\<lambda>m. case fst (snd m) of [] \<Rightarrow> 0 | f # _ \<Rightarrow> length f),
      kfold_split = sklearn_kfold\<rparr>"

text \<open>
  Recognizer example: the model of BROKEN never scores, no model scores an item without
  frames; BOOK scores minus the number of frames, JOHN scores \<open>-2\<close>.
\<close>

definition rec_scores :: "toy_model \<Rightarrow> xlengths \<Rightarrow> real option" where
  "rec_scores m item =
     (if fst m = 4 \<or> fst item = [] then None
      else if fst m = 2 then Some (- real (length (fst item)))
      else Some (- 2))"

definition rec_models :: "toy_model models" where
  "rec_models = [(''BOOK'', (2, ([], []))), (''JOHN'', (3, ([], []))), (''BROKEN'', (4, ([], [])))]"

definition rec_test_set :: singles_data where
  "rec_test_set = [([[1], [2], [3]], [3]), ([[5]], [1]), ([], [])]"

definition rec_library :: "toy_model library" where
  "rec_library = toy_library (\<lambda>k d. True) rec_scores"

text \<open>
  Selector examples: the word FISH has three example sequences (of one, two and one
  frames), the word ONE a single one. \<open>cv_selector\<close> is what \<^verbatim>\<open>__init__\<close> returns for a
  word of this vocabulary. In \<open>frames_library\<close> every fit succeeds and a model with \<open>k\<close>
  states scores \<open>-k\<close> per frame; in \<open>skip_library\<close> scoring a test set that is the
  one-frame sequence \<open>[[1]]\<close> fails; in \<open>refit_library\<close> the fit with three states on the
  full data of FISH fails.
\<close>

definition cv_words :: "(string \<times> word_sequences) list" where
  "cv_words = [(''FISH'', [[[1]], [[2], [3]], [[4]]]), (''ONE'', [[[7], [8]]])]"

definition cv_hwords :: "(string \<times> xlengths) list" where
  "cv_hwords = [(''FISH'', ([[1], [2], [3], [4]], [1, 2, 1])), (''ONE'', ([[7], [8]], [2]))]"

definition cv_selector :: "string \<Rightarrow> int \<Rightarrow> int \<Rightarrow> selector" where
  "cv_selector word min_n max_n =
     \<lparr>words = cv_words, hwords = cv_hwords,
      sequences = the (map_of cv_words word),
      X = fst (the (map_of cv_hwords word)), lengths = snd (the (map_of cv_hwords word)),
      this_word = word, n_constant = 3, min_n_components = min_n, max_n_components = max_n,
      random_state = 14, verbose = False\<rparr>"

definition frames_library :: "toy_model library" where
  "frames_library =
     toy_library (\<lambda>k d. True) (\<lambda>m d. Some (- (of_int (fst m) * real (length (fst d)))))"

definition skip_library :: "toy_model library" where
  "skip_library =
     toy_library (\<lambda>k d. True)
       (\<lambda>m d. if fst d = [[1]] then None else Some (- real (length (fst d))))"

definition refit_weight :: "int \<Rightarrow> real" where
  "refit_weight k = (if k = 2 then - 3 else if k = 3 then - 1 else - 2)"

definition refit_library :: "toy_model library" where
  "refit_library =
     toy_library (\<lambda>k d. \<not> (k = 3 \<and> d = ([[1], [2], [3], [4]], [1, 2, 1])))
       (\<lambda>m d. Some (refit_weight (fst m) * real (length (fst d))))"

text \<open>
  In \<open>bic_library\<close> the fit with three states fails, every other fit succeeds, and a model
  with \<open>k\<close> states scores \<open>-k\<close> per frame.
\<close>

definition bic_library :: "toy_model library" where
  "bic_library =
     toy_library (\<lambda>k d. k \<noteq> 3) (\<lambda>m d. Some (- (of_int (fst m) * real (length (fst d)))))"

section \<open>Auxiliary notions for the proofs\<close>

text \<open>
  The result of the inner loop of \<^verbatim>\<open>recognize\<close> for one test item, the row of scores that
  loop builds when the keys of \<^verbatim>\<open>models\<close> are distinct, and the invariant of
  \<^verbatim>\<open>best_score\<close> and \<^verbatim>\<open>best_guess\<close> over the scores seen so far.
\<close>

definition item_result ::
  "'m library \<Rightarrow> 'm models \<Rightarrow> xlengths \<Rightarrow> pyfloat \<times> string option \<times> word_prob" where
  "item_result lib models current = score_models lib current models (NegInf, None, [])"

definition best_inv :: "pyfloat \<Rightarrow> string option \<Rightarrow> word_prob \<Rightarrow> bool" where
  "best_inv best_score best_guess seen \<longleftrightarrow>
     (\<forall>(w, v)\<in>set seen. v \<le> best_score) \<and>
     (case best_guess of
        None \<Rightarrow> best_score = NegInf
      | Some g \<Rightarrow> (g, best_score) \<in> set seen \<and> NegInf < best_score)"

definition score_row :: "'m library \<Rightarrow> 'm models \<Rightarrow> xlengths \<Rightarrow> word_prob" where
  "score_row lib models current = map (\<lambda>(word, model). (word, try_score lib model current)) models"

text \<open>
  Written from the spec's words, to compare with the code: the held-out log-likelihood of
  one fold (a model fit on the concatenation of the training sequences, scored on the
  concatenation of the held-out ones; \<open>None\<close> when the fit or the score fails), the folds
  of a word (\<open>min(number_of_examples, 3)\<close> of them), and the average of the held-out
  log-likelihoods, which exists when there is a fold and every fold has one.
\<close>

definition held_out_score ::
  "'m library \<Rightarrow> selector \<Rightarrow> int \<Rightarrow> nat list \<times> nat list \<Rightarrow> real option" where
  "held_out_score lib self k cvf =
     (case combine_sequences (fst cvf) (sequences self) of
        Inl e \<Rightarrow> None
      | Inr train \<Rightarrow>
          (case combine_sequences (snd cvf) (sequences self) of
             Inl e \<Rightarrow> None
           | Inr test \<Rightarrow>
               (case hmm_fit lib k (random_state self) train of
                  None \<Rightarrow> None
                | Some m \<Rightarrow> hmm_score lib m test)))"

definition cv_splits :: "'m library \<Rightarrow> selector \<Rightarrow> (nat list \<times> nat list) list" where
  "cv_splits lib self =
     kfold_split lib (min (length (sequences self)) 3) (length (sequences self))"

definition cv_average :: "'m library \<Rightarrow> selector \<Rightarrow> int \<Rightarrow> real option" where
  "cv_average lib self k =
     (let scores = map (held_out_score lib self k) (cv_splits lib self)
      in if scores = [] \<or> None \<in> set scores then None
         else Some (sum_list (map the scores) / real (length scores)))"

text \<open>
  Written from the spec's words, to compare with the code: for the state count \<open>k\<close>, the
  model fit on the word's data, its log-likelihood \<open>L\<close> on that data, the number of free
  parameters \<open>p = k\<^sup>2 + 2 k d - 1\<close> with \<open>d\<close> the feature dimensionality, and
  \<open>BIC = -2 L + p ln N\<close> with \<open>N\<close> the number of frames; \<open>None\<close> when the fit or the score
  fails. \<open>bic_step\<close> is one round of the search in these terms and \<open>bic_inv\<close> what holds
  of \<^verbatim>\<open>best_bic_score\<close> and \<^verbatim>\<open>best_model\<close> after the candidates \<open>seen\<close>.
\<close>

definition bic_spec :: "'m library \<Rightarrow> selector \<Rightarrow> int \<Rightarrow> ('m \<times> real) option" where
  "bic_spec lib self k =
     (case hmm_fit lib k (random_state self) (X self, lengths self) of
        None \<Rightarrow> None
      | Some m \<Rightarrow>
          (case hmm_score lib m (X self, lengths self) of
             None \<Rightarrow> None
           | Some L \<Rightarrow>
               (let d = int (hmm_n_features lib m);
                    p = k\<^sup>2 + 2 * k * d - 1;
                    N = length (X self)
                in Some (m, - 2 * L + of_int p * ln (real N)))))"

definition bic_step ::
  "'m library \<Rightarrow> selector \<Rightarrow> int \<Rightarrow> pyfloat \<times> 'm option \<Rightarrow> pyfloat \<times> 'm option" where
  "bic_step lib self k st =
     (case bic_spec lib self k of
        None \<Rightarrow> st
      | Some (m, b) \<Rightarrow> if Fin b < fst st then (Fin b, Some m) else st)"

definition bic_inv :: "'m library \<Rightarrow> selector \<Rightarrow> int list \<Rightarrow> pyfloat \<times> 'm option \<Rightarrow> bool" where
  "bic_inv lib self seen st =
     (case snd st of
        None \<Rightarrow> fst st = PosInf \<and> (\<forall>k\<in>set seen. bic_spec lib self k = None)
      | Some m \<Rightarrow>
          (\<exists>ks1 k ks2 b. seen = ks1 @ k # ks2 \<and> bic_spec lib self k = Some (m, b) \<and>
             fst st = Fin b \<and>
             (\<forall>k'\<in>set ks1. \<forall>m' b'. bic_spec lib self k' = Some (m', b') \<longrightarrow> b < b') \<and>
             (\<forall>k'\<in>set ks2. \<forall>m' b'. bic_spec lib self k' = Some (m', b') \<longrightarrow> b \<le> b')))"

text \<open>
  Written from the spec's words, to compare with the code: the log-likelihood of a model
  on the training data of another word (\<open>None\<close> when the word has no data or the score
  fails), and for the state count \<open>k\<close> the model fit on the target word's data with
  \<open>DIC = L - mean\<close> of its log-likelihoods on every other word of the vocabulary;
  \<open>None\<close> when the fit or one of the scores fails. (The mean needs another word: the
  theorems take a vocabulary of at least two.) \<open>dic_step\<close> is one round of the search
  in these terms and \<open>dic_inv\<close> what holds of \<^verbatim>\<open>best_dic_score\<close> and \<^verbatim>\<open>best_model\<close> after the
  candidates \<open>seen\<close>.
\<close>

definition other_score :: "'m library \<Rightarrow> selector \<Rightarrow> 'm \<Rightarrow> string \<Rightarrow> real option" where
  "other_score lib self m w =
     (case map_of (hwords self) w of
        None \<Rightarrow> None
      | Some d \<Rightarrow> hmm_score lib m d)"

definition dic_spec :: "'m library \<Rightarrow> selector \<Rightarrow> int \<Rightarrow> ('m \<times> real) option" where
  "dic_spec lib self k =
     (case hmm_fit lib k (random_state self) (X self, lengths self) of
        None \<Rightarrow> None
      | Some m \<Rightarrow>
          (case hmm_score lib m (X self, lengths self) of
             None \<Rightarrow> None
           | Some L \<Rightarrow>
               (let others = filter (\<lambda>w. w \<noteq> this_word self) (map fst (words self));
                    lls = map (other_score lib self m) others
                in if None \<in> set lls then None
                   else Some (m, L - sum_list (map the lls) / real (length lls)))))"

definition dic_step ::
  "'m library \<Rightarrow> selector \<Rightarrow> int \<Rightarrow> pyfloat \<times> 'm option \<Rightarrow> pyfloat \<times> 'm option" where
  "dic_step lib self k st =
     (case dic_spec lib self k of
        None \<Rightarrow> st
      | Some (m, d) \<Rightarrow> if fst st < Fin d then (Fin d, Some m) else st)"

definition dic_inv :: "'m library \<Rightarrow> selector \<Rightarrow> int list \<Rightarrow> pyfloat \<times> 'm option \<Rightarrow> bool" where
  "dic_inv lib self seen st =
     (case snd st of
        None \<Rightarrow> fst st = NegInf \<and> (\<forall>k\<in>set seen. dic_spec lib self k = None)
      | Some m \<Rightarrow>
          (\<exists>ks1 k ks2 d. seen = ks1 @ k # ks2 \<and> dic_spec lib self k = Some (m, d) \<and>
             fst st = Fin d \<and>
             (\<forall>k'\<in>set ks1. \<forall>m' d'. dic_spec lib self k' = Some (m', d') \<longrightarrow> d' < d) \<and>
             (\<forall>k'\<in>set ks2. \<forall>m' d'. dic_spec lib self k' = Some (m', d') \<longrightarrow> d' \<le> d)))"

section \<open>Properties of the recognizer\<close>

lemma update_fresh: "k \<notin> fst ` set al \<Longrightarrow> AList.update k v al = al @ [(k, v)]"
  by (induction al) auto

lemma score_models_word_prob:
  "distinct (map fst models) \<Longrightarrow> fst ` set word_prob \<inter> fst ` set models = {} \<Longrightarrow>
   snd (snd (score_models lib current models (best_score, best_guess, word_prob)))
     = word_prob @ map (\<lambda>(word, model). (word, try_score lib model current)) models"
proof (induction models arbitrary: best_score best_guess word_prob)
  case Nil
  then show ?case by simp
next
  case (Cons a models)
  obtain word model where a: "a = (word, model)" by (cases a)
  from Cons.prems have fresh: "word \<notin> fst ` set word_prob" and d: "distinct (map fst models)"
    and w: "word \<notin> fst ` set models" and disj: "fst ` set word_prob \<inter> fst ` set models = {}"
    by (auto simp: a)
  have disj': "fst ` set (word_prob @ [(word, v)]) \<inter> fst ` set models = {}" for v
    using w disj by auto
  show ?case
    using Cons.IH [OF d disj'] by (simp add: a update_fresh [OF fresh] Let_def)
qed

lemma NegInf_le: "NegInf \<le> x"
  by simp

lemma le_NegInf: "x \<le> NegInf \<Longrightarrow> x = NegInf"
  by (cases x) auto

lemma score_models_best:
  "best_inv best_score best_guess seen \<Longrightarrow>
   score_models lib current models (best_score, best_guess, word_prob) = (bs, bg, wp) \<Longrightarrow>
   best_inv bs bg (seen @ map (\<lambda>(word, model). (word, try_score lib model current)) models)"
proof (induction models arbitrary: best_score best_guess word_prob seen)
  case Nil
  then show ?case by simp
next
  case (Cons a models)
  obtain word model where a: "a = (word, model)" by (cases a)
  let ?s = "try_score lib model current"
  show ?case
  proof (cases "?s > best_score")
    case True
    have inv: "best_inv ?s (Some word) (seen @ [(word, ?s)])"
      using Cons.prems(1) True le_less_trans [OF NegInf_le True] by (auto simp: best_inv_def)
    from Cons.prems(2) True
    have "score_models lib current models (?s, Some word, AList.update word ?s word_prob) = (bs, bg, wp)"
      by (simp add: a Let_def)
    from Cons.IH [OF inv this] show ?thesis by (simp add: a)
  next
    case False
    have inv: "best_inv best_score best_guess (seen @ [(word, ?s)])"
      using Cons.prems(1) False by (auto simp: best_inv_def split: option.splits)
    from Cons.prems(2) False
    have "score_models lib current models (best_score, best_guess, AList.update word ?s word_prob) = (bs, bg, wp)"
      by (simp add: a Let_def)
    from Cons.IH [OF inv this] show ?thesis by (simp add: a)
  qed
qed

lemma item_result_row:
  assumes "distinct (map fst models)"
  shows "snd (snd (item_result lib models current)) = score_row lib models current"
  using score_models_word_prob [OF assms, of "[]" lib current NegInf None]
  by (simp add: item_result_def score_row_def)

lemma item_result_best:
  assumes "distinct (map fst models)"
  shows "best_inv (fst (item_result lib models current)) (fst (snd (item_result lib models current)))
           (score_row lib models current)"
proof -
  obtain bs bg wp where r: "score_models lib current models (NegInf, None, []) = (bs, bg, wp)"
    by (cases "score_models lib current models (NegInf, None, [])")
  have "best_inv NegInf None []" by (simp add: best_inv_def)
  from score_models_best [OF this r] show ?thesis
    by (simp add: item_result_def r score_row_def)
qed

lemma recognize_loop_Inr:
  "\<forall>i\<in>set idxs. i < length test_set \<Longrightarrow>
   recognize_loop lib models test_set idxs (probabilities, guesses) =
     Inr (probabilities @ map (\<lambda>i. snd (snd (item_result lib models (test_set ! i)))) idxs,
          guesses @ map (\<lambda>i. fst (snd (item_result lib models (test_set ! i)))) idxs)"
proof (induction idxs arbitrary: probabilities guesses)
  case Nil
  then show ?case by simp
next
  case (Cons i idxs)
  then show ?case
    by (simp add: get_item_Xlengths_def item_result_def split: prod.splits)
qed

lemma map_index_nth: "map (\<lambda>i. f (xs ! i)) [0..<length xs] = map f xs"
proof -
  have "map f xs = map f (map ((!) xs) [0..<length xs])"
    by (simp only: map_nth)
  also have "\<dots> = map (\<lambda>i. f (xs ! i)) [0..<length xs]"
    by (simp only: map_map comp_def)
  finally show ?thesis by simp
qed

lemma recognize_Inr:
  "recognize lib models test_set =
     Inr (map (\<lambda>current. snd (snd (item_result lib models current))) test_set,
          map (\<lambda>current. fst (snd (item_result lib models current))) test_set)"
  using map_index_nth [of "\<lambda>current. snd (snd (item_result lib models current))" test_set]
    map_index_nth [of "\<lambda>current. fst (snd (item_result lib models current))" test_set]
  by (simp add: recognize_def get_all_Xlengths_def recognize_loop_Inr)

lemma map_of_score_row:
  "distinct (map fst models) \<Longrightarrow> (word, model) \<in> set models \<Longrightarrow>
   map_of (score_row lib models current) word = Some (try_score lib model current)"
  by (induction models) (auto simp: score_row_def rev_image_eqI)

lemma fst_score_row: "map fst (score_row lib models current) = map fst models"
  by (induction models) (auto simp: score_row_def)

lemma Max_snd_row:
  assumes "(g, b) \<in> set row" and "\<forall>(w, v)\<in>set row. v \<le> b"
  shows "Max (snd ` set row) = b"
proof (rule Max_eqI)
  show "finite (snd ` set row)" by simp
  show "y \<le> b" if "y \<in> snd ` set row" for y using that assms(2) by auto
  show "b \<in> snd ` set row" using assms(1) by force
qed

lemma item_guess_Some:
  assumes d: "distinct (map fst models)"
    and g: "fst (snd (item_result lib models current)) = Some guess"
  shows "map_of (score_row lib models current) guess
           = Some (Max (snd ` set (score_row lib models current)))"
proof -
  let ?row = "score_row lib models current"
  let ?b = "fst (item_result lib models current)"
  from item_result_best [OF d, of lib current] g
  have mem: "(guess, ?b) \<in> set ?row" and ub: "\<forall>(w, v)\<in>set ?row. v \<le> ?b"
    by (auto simp: best_inv_def)
  have "distinct (map fst ?row)" using d by (simp add: fst_score_row)
  then have "map_of ?row guess = Some ?b" using mem by simp
  then show ?thesis using Max_snd_row [OF mem ub] by simp
qed

lemma item_guess_None:
  assumes d: "distinct (map fst models)"
    and g: "fst (snd (item_result lib models current)) = None"
  shows "\<forall>(w, v)\<in>set (score_row lib models current). v = NegInf"
proof -
  from item_result_best [OF d, of lib current] g
  have "\<forall>(w, v)\<in>set (score_row lib models current). v \<le> NegInf"
    by (auto simp: best_inv_def)
  then show ?thesis using le_NegInf by blast
qed

lemma item_guess_all_fail:
  assumes d: "distinct (map fst models)"
    and f: "\<forall>(word, model)\<in>set models. hmm_score lib model current = None"
  shows "fst (snd (item_result lib models current)) = None"
proof (cases "fst (snd (item_result lib models current))")
  case None
  then show ?thesis .
next
  case (Some g)
  from item_result_best [OF d, of lib current] Some
  have mem: "(g, fst (item_result lib models current)) \<in> set (score_row lib models current)"
    and pos: "NegInf < fst (item_result lib models current)"
    by (auto simp: best_inv_def)
  from mem f have "fst (item_result lib models current) = NegInf"
    by (auto simp: score_row_def try_score_def)
  with pos show ?thesis by simp
qed

text \<open>
  Claim C1. For every test item, a model whose scoring call fails is recorded with the
  score \<open>-\<infinity>\<close> for that item and that word, and nothing is raised: \<^verbatim>\<open>recognize\<close> returns a
  row and a guess for every test item, each row has one entry per word of \<^verbatim>\<open>models\<close>, in
  the order of \<^verbatim>\<open>models\<close>, holding the model's log-likelihood or \<open>-\<infinity>\<close> where the call
  failed. For a test item on which every model fails, all values of the row are \<open>-\<infinity>\<close> and
  the guess is \<^verbatim>\<open>None\<close>.
\<close>

theorem recognize_failed_score_is_neg_inf:
  assumes "distinct (map fst models)"
  shows "\<exists>probabilities guesses.
    recognize lib models test_set = Inr (probabilities, guesses) \<and>
    length probabilities = length test_set \<and> length guesses = length test_set \<and>
    (\<forall>i<length test_set.
       map fst (probabilities ! i) = map fst models \<and>
       (\<forall>(word, model)\<in>set models.
          map_of (probabilities ! i) word =
            Some (case hmm_score lib model (test_set ! i) of
                    Some logL \<Rightarrow> Fin logL
                  | None \<Rightarrow> NegInf)) \<and>
       ((\<forall>(word, model)\<in>set models. hmm_score lib model (test_set ! i) = None) \<longrightarrow>
          (\<forall>(word, v)\<in>set (probabilities ! i). v = NegInf) \<and> guesses ! i = None))"
proof -
  let ?P = "map (\<lambda>current. snd (snd (item_result lib models current))) test_set"
  let ?G = "map (\<lambda>current. fst (snd (item_result lib models current))) test_set"
  have row: "?P ! i = score_row lib models (test_set ! i)" if "i < length test_set" for i
    using that by (simp add: item_result_row [OF assms])
  have "map fst (?P ! i) = map fst models" if "i < length test_set" for i
    using row [OF that] by (simp add: fst_score_row)
  moreover have "\<forall>(word, model)\<in>set models.
          map_of (?P ! i) word =
            Some (case hmm_score lib model (test_set ! i) of
                    Some logL \<Rightarrow> Fin logL
                  | None \<Rightarrow> NegInf)" if "i < length test_set" for i
    using row [OF that] map_of_score_row [OF assms, of _ _ lib "test_set ! i"]
    by (auto simp: try_score_def)
  moreover have "(\<forall>(word, v)\<in>set (?P ! i). v = NegInf) \<and> ?G ! i = None"
    if "i < length test_set"
      and "\<forall>(word, model)\<in>set models. hmm_score lib model (test_set ! i) = None" for i
  proof -
    have "?G ! i = None"
      using that item_guess_all_fail [OF assms, of lib "test_set ! i"] by simp
    moreover from this have "\<forall>(word, v)\<in>set (?P ! i). v = NegInf"
      using item_guess_None [OF assms, of lib "test_set ! i"] row [OF that(1)] that(1) by simp
    ultimately show ?thesis by simp
  qed
  ultimately show ?thesis
    by (intro exI [of _ ?P] exI [of _ ?G]) (simp add: recognize_Inr)
qed

text \<open>
  Claim C2. \<^verbatim>\<open>recognize\<close> returns two lists as long as the test set, in the order of the
  test items: row \<open>i\<close> holds the scores of item \<open>i\<close>. Where row \<open>i\<close> has a finite score the
  guess is a word, and whenever the guess is a word, its score in row \<open>i\<close> is the maximum
  of the row's values.
\<close>

theorem recognize_guess_is_argmax:
  assumes "distinct (map fst models)"
  shows "\<exists>probabilities guesses.
    recognize lib models test_set = Inr (probabilities, guesses) \<and>
    length probabilities = length test_set \<and> length guesses = length test_set \<and>
    (\<forall>i<length test_set.
       probabilities ! i =
         map (\<lambda>(word, model). (word, try_score lib model (test_set ! i))) models \<and>
       ((\<exists>word logL. (word, Fin logL) \<in> set (probabilities ! i)) \<longrightarrow> guesses ! i \<noteq> None) \<and>
       (\<forall>guess. guesses ! i = Some guess \<longrightarrow>
          map_of (probabilities ! i) guess = Some (Max (snd ` set (probabilities ! i)))))"
proof -
  let ?P = "map (\<lambda>current. snd (snd (item_result lib models current))) test_set"
  let ?G = "map (\<lambda>current. fst (snd (item_result lib models current))) test_set"
  have row: "?P ! i = score_row lib models (test_set ! i)" if "i < length test_set" for i
    using that by (simp add: item_result_row [OF assms])
  have "?G ! i \<noteq> None"
    if "i < length test_set" and "(word, Fin logL) \<in> set (?P ! i)" for i word logL
  proof
    assume "?G ! i = None"
    then have "\<forall>(w, v)\<in>set (?P ! i). v = NegInf"
      using item_guess_None [OF assms, of lib "test_set ! i"] row [OF that(1)] that(1) by simp
    with that(2) show False by blast
  qed
  moreover have "map_of (?P ! i) guess = Some (Max (snd ` set (?P ! i)))"
    if "i < length test_set" and "?G ! i = Some guess" for i guess
    using that item_guess_Some [OF assms, of lib "test_set ! i" guess] row [OF that(1)] by simp
  ultimately show ?thesis
    using row
    by (intro exI [of _ ?P] exI [of _ ?G]) (simp add: recognize_Inr score_row_def, blast)
qed

lemma rec_example_run:
  "recognize rec_library rec_models rec_test_set =
     Inr ([[(''BOOK'', Fin (- 3)), (''JOHN'', Fin (- 2)), (''BROKEN'', NegInf)],
           [(''BOOK'', Fin (- 1)), (''JOHN'', Fin (- 2)), (''BROKEN'', NegInf)],
           [(''BOOK'', NegInf), (''JOHN'', NegInf), (''BROKEN'', NegInf)]],
          [Some ''JOHN'', Some ''BOOK'', None])"
  by (simp add: recognize_def get_all_Xlengths_def get_item_Xlengths_def upt_rec try_score_def
      rec_library_def toy_library_def rec_scores_def rec_models_def rec_test_set_def Let_def)

theorem recognize_failed_score_is_neg_inf_witness:
  "distinct (map fst rec_models) \<and>
   hmm_score rec_library (4, ([], [])) (rec_test_set ! 0) = None \<and>
   hmm_score rec_library (2, ([], [])) (rec_test_set ! 2) = None \<and>
   hmm_score rec_library (3, ([], [])) (rec_test_set ! 2) = None \<and>
   hmm_score rec_library (4, ([], [])) (rec_test_set ! 2) = None \<and>
   (\<exists>probabilities guesses.
      recognize rec_library rec_models rec_test_set = Inr (probabilities, guesses) \<and>
      length probabilities = 3 \<and> length guesses = 3 \<and>
      map_of (probabilities ! 0) ''BROKEN'' = Some NegInf \<and>
      map_of (probabilities ! 0) ''JOHN'' = Some (Fin (- 2)) \<and>
      map fst (probabilities ! 2) = [''BOOK'', ''JOHN'', ''BROKEN''] \<and>
      guesses ! 2 = None)"
proof -
  have d: "distinct (map fst rec_models)"
    by (simp add: rec_models_def)
  have s: "hmm_score rec_library (4, ([], [])) (rec_test_set ! 0) = None"
    "hmm_score rec_library (3, ([], [])) (rec_test_set ! 0) = Some (- 2)"
    "hmm_score rec_library (2, ([], [])) (rec_test_set ! 2) = None"
    "hmm_score rec_library (3, ([], [])) (rec_test_set ! 2) = None"
    "hmm_score rec_library (4, ([], [])) (rec_test_set ! 2) = None"
    by (simp_all add: rec_library_def toy_library_def rec_scores_def rec_test_set_def)
  from recognize_failed_score_is_neg_inf [OF d, of rec_library rec_test_set]
  obtain probabilities guesses where
    r: "recognize rec_library rec_models rec_test_set = Inr (probabilities, guesses)"
    and len: "length probabilities = length rec_test_set" "length guesses = length rec_test_set"
    and rows: "\<And>i. i < length rec_test_set \<Longrightarrow>
       map fst (probabilities ! i) = map fst rec_models \<and>
       (\<forall>(word, model)\<in>set rec_models.
          map_of (probabilities ! i) word =
            Some (case hmm_score rec_library model (rec_test_set ! i) of
                    Some logL \<Rightarrow> Fin logL
                  | None \<Rightarrow> NegInf)) \<and>
       ((\<forall>(word, model)\<in>set rec_models. hmm_score rec_library model (rec_test_set ! i) = None) \<longrightarrow>
          (\<forall>(word, v)\<in>set (probabilities ! i). v = NegInf) \<and> guesses ! i = None)"
    by blast
  have n: "length rec_test_set = 3" by (simp add: rec_test_set_def)
  have "map_of (probabilities ! 0) ''BROKEN'' = Some NegInf"
    and "map_of (probabilities ! 0) ''JOHN'' = Some (Fin (- 2))"
    using rows [of 0] s by (simp_all add: n rec_models_def)
  moreover have "map fst (probabilities ! 2) = [''BOOK'', ''JOHN'', ''BROKEN'']"
    and "guesses ! 2 = None"
    using rows [of 2] s by (simp_all add: n rec_models_def)
  ultimately show ?thesis
    using d s r len n by simp
qed

theorem recognize_guess_is_argmax_witness:
  "distinct (map fst rec_models) \<and>
   (\<exists>probabilities guesses.
      recognize rec_library rec_models rec_test_set = Inr (probabilities, guesses) \<and>
      length probabilities = 3 \<and> length guesses = 3 \<and>
      probabilities ! 0 = [(''BOOK'', Fin (- 3)), (''JOHN'', Fin (- 2)), (''BROKEN'', NegInf)] \<and>
      guesses ! 0 = Some ''JOHN'' \<and>
      map_of (probabilities ! 0) ''JOHN'' = Some (Max (snd ` set (probabilities ! 0))) \<and>
      Max (snd ` set (probabilities ! 0)) = Fin (- 2))"
proof -
  have d: "distinct (map fst rec_models)"
    by (simp add: rec_models_def)
  from recognize_guess_is_argmax [OF d, of rec_library rec_test_set]
  obtain probabilities guesses where
    r: "recognize rec_library rec_models rec_test_set = Inr (probabilities, guesses)"
    and len: "length probabilities = length rec_test_set" "length guesses = length rec_test_set"
    and rows: "\<And>i. i < length rec_test_set \<Longrightarrow>
       probabilities ! i =
         map (\<lambda>(word, model). (word, try_score rec_library model (rec_test_set ! i))) rec_models \<and>
       ((\<exists>word logL. (word, Fin logL) \<in> set (probabilities ! i)) \<longrightarrow> guesses ! i \<noteq> None) \<and>
       (\<forall>guess. guesses ! i = Some guess \<longrightarrow>
          map_of (probabilities ! i) guess = Some (Max (snd ` set (probabilities ! i))))"
    by blast
  have n: "length rec_test_set = 3" by (simp add: rec_test_set_def)
  have g: "guesses ! 0 = Some ''JOHN''"
    using r by (auto simp: rec_example_run)
  have row: "probabilities ! 0 = [(''BOOK'', Fin (- 3)), (''JOHN'', Fin (- 2)), (''BROKEN'', NegInf)]"
    using r by (auto simp: rec_example_run)
  have m: "map_of (probabilities ! 0) ''JOHN'' = Some (Max (snd ` set (probabilities ! 0)))"
  proof -
    have "0 < length rec_test_set" by (simp add: n)
    from rows [OF this] g show ?thesis by blast
  qed
  then have "Max (snd ` set (probabilities ! 0)) = Fin (- 2)"
    by (simp add: row)
  with d r len n g row m show ?thesis by simp
qed

section \<open>Properties of the model selectors\<close>

lemma cv_folds_step_None:
  "held_out_score lib self k cvf = None \<Longrightarrow>
   \<exists>e model'. cv_folds lib self k (cvf # folds) (score, iter_num, model) = (Inl e, model')"
  by (cases cvf) (auto simp: held_out_score_def split: sum.splits option.splits)

lemma cv_folds_step_Some:
  "held_out_score lib self k cvf = Some l \<Longrightarrow>
   \<exists>fitted. cv_folds lib self k (cvf # folds) (score, iter_num, model) =
     cv_folds lib self k folds (score + l, iter_num + 1, Some fitted)"
  by (cases cvf) (auto simp: held_out_score_def split: sum.splits option.splits)

lemma cv_folds_fail:
  "None \<in> set (map (held_out_score lib self k) folds) \<Longrightarrow>
   \<exists>e model'. cv_folds lib self k folds (score, iter_num, model) = (Inl e, model')"
proof (induction folds arbitrary: score iter_num model)
  case Nil
  then show ?case by simp
next
  case (Cons cvf folds)
  show ?case
  proof (cases "held_out_score lib self k cvf")
    case None
    from cv_folds_step_None [OF None] show ?thesis .
  next
    case (Some l)
    with Cons.prems have "None \<in> set (map (held_out_score lib self k) folds)" by auto
    from Cons.IH [OF this] cv_folds_step_Some [OF Some, of folds score iter_num model]
    show ?thesis by metis
  qed
qed

lemma cv_folds_ok:
  "None \<notin> set (map (held_out_score lib self k) folds) \<Longrightarrow>
   \<exists>model'. cv_folds lib self k folds (score, iter_num, model) =
     (Inr (score + sum_list (map (\<lambda>f. the (held_out_score lib self k f)) folds),
           iter_num + length folds), model')"
proof (induction folds arbitrary: score iter_num model)
  case Nil
  then show ?case by simp
next
  case (Cons cvf folds)
  from Cons.prems obtain l where l: "held_out_score lib self k cvf = Some l"
    by (cases "held_out_score lib self k cvf") auto
  from Cons.prems have ok: "None \<notin> set (map (held_out_score lib self k) folds)" by auto
  from cv_folds_step_Some [OF l, of folds score iter_num model] obtain fitted where
    st: "cv_folds lib self k (cvf # folds) (score, iter_num, model) =
           cv_folds lib self k folds (score + l, iter_num + 1, Some fitted)" by blast
  from Cons.IH [OF ok, of "score + l" "iter_num + 1" "Some fitted"] obtain model' where
    "cv_folds lib self k folds (score + l, iter_num + 1, Some fitted) =
       (Inr (score + l + sum_list (map (\<lambda>f. the (held_out_score lib self k f)) folds),
             iter_num + 1 + length folds), model')" by blast
  with st l show ?case by (simp add: add.assoc)
qed

lemma cv_try_skipped:
  assumes "1 < length (sequences self)" and "cv_average lib self k = None"
  shows "\<exists>e model'. cv_try lib self k (best_score, best_model, model) =
           (Inl e, best_score, best_model, model')"
proof (cases "None \<in> set (map (held_out_score lib self k) (cv_splits lib self))")
  case True
  from cv_folds_fail [OF True, of 0 0 model] assms(1) show ?thesis
    by (auto simp: cv_try_def cv_splits_def Let_def)
next
  case False
  with assms(2) have e: "cv_splits lib self = []"
    by (auto simp: cv_average_def Let_def split: if_splits)
  with assms(1) show ?thesis
    by (auto simp: cv_try_def cv_splits_def Let_def)
qed

lemma cv_try_scored:
  assumes "1 < length (sequences self)" and "cv_average lib self k = Some s"
  shows "\<exists>model'. cv_try lib self k (best_score, best_model, model) =
           cv_keep_best lib self k s None (best_score, best_model, model')"
proof -
  from assms(2) have ok: "None \<notin> set (map (held_out_score lib self k) (cv_splits lib self))"
    and ne: "cv_splits lib self \<noteq> []"
    and s: "s = sum_list (map (\<lambda>f. the (held_out_score lib self k f)) (cv_splits lib self))
                 / real (length (cv_splits lib self))"
    by (auto simp: cv_average_def Let_def comp_def split: if_splits)
  from cv_folds_ok [OF ok, of 0 0 model] obtain model' where
    "cv_folds lib self k (cv_splits lib self) (0, 0, model) =
       (Inr (sum_list (map (\<lambda>f. the (held_out_score lib self k f)) (cv_splits lib self)),
             length (cv_splits lib self)), model')"
    by auto
  with assms(1) ne s show ?thesis
    by (auto simp: cv_try_def cv_splits_def Let_def)
qed

lemma cv_selector_init:
  "init cv_words cv_hwords ''FISH'' 3 2 3 14 False = Inr (cv_selector ''FISH'' 2 3)"
  "init cv_words cv_hwords ''ONE'' 3 2 3 14 False = Inr (cv_selector ''ONE'' 2 3)"
  by (simp_all add: init_def cv_words_def cv_hwords_def cv_selector_def)

lemma kfold_3_3: "sklearn_kfold 3 3 = [([1, 2], [0]), ([0, 2], [1]), ([0, 1], [2])]"
  by code_simp

lemma cv_try_single:
  "length (sequences self) \<le> 1 \<Longrightarrow> snd (cv_try lib self k (bs, bm, None)) = (bs, bm, None)"
  by (simp add: cv_try_def split: option.splits)

lemma cv_loop_single:
  "length (sequences self) \<le> 1 \<Longrightarrow> cv_loop lib self ks (bs, bm, None) = (bs, bm, None)"
  by (induction ks) (simp_all add: cv_try_single)

lemma select_cv_single:
  "length (sequences self) \<le> 1 \<Longrightarrow> select_cv lib self = None"
  by (simp add: select_cv_def cv_loop_single)

text \<open>
  Claim C6. A word with exactly one training sequence: the first branch fits
  \<^verbatim>\<open>last_model\<close> and then reads the variable \<^verbatim>\<open>model\<close>, which is unbound (the branch that
  assigns it never runs for such a word). The UnboundLocalError is caught for every
  candidate, and \<^verbatim>\<open>select\<close> returns \<^verbatim>\<open>None\<close>, although the fit on the full data succeeds
  and the fitted model's score on it is finite. Here for the word ONE.
\<close>

theorem select_cv_single_example_returns_None:
  "init cv_words cv_hwords ''ONE'' 3 2 3 14 False = Inr (cv_selector ''ONE'' 2 3) \<and>
   length (sequences (cv_selector ''ONE'' 2 3)) = 1 \<and>
   hmm_fit frames_library 2 14 ([[7], [8]], [2]) = Some (2, ([[7], [8]], [2])) \<and>
   hmm_score frames_library (2, ([[7], [8]], [2])) ([[7], [8]], [2]) = Some (- 4) \<and>
   hmm_fit frames_library 3 14 ([[7], [8]], [2]) = Some (3, ([[7], [8]], [2])) \<and>
   hmm_score frames_library (3, ([[7], [8]], [2])) ([[7], [8]], [2]) = Some (- 6) \<and>
   select_cv frames_library (cv_selector ''ONE'' 2 3) = None"
proof -
  have "length (sequences (cv_selector ''ONE'' 2 3)) = 1"
    by (simp add: cv_selector_def cv_words_def)
  moreover from this have "select_cv frames_library (cv_selector ''ONE'' 2 3) = None"
    by (simp add: select_cv_single)
  ultimately show ?thesis
    by (simp add: cv_selector_init frames_library_def toy_library_def)
qed

lemma cv_keep_best_model:
  "cv_keep_best lib self k s None (bs, bm, mv) = (r, bs', bm', mv') \<Longrightarrow>
   bm' = bm \<or> (\<exists>m. bm' = Some m \<and> hmm_fit lib k (random_state self) (X self, lengths self) = Some m)"
  by (auto simp: cv_keep_best_def split: if_splits option.splits)

lemma cv_keep_best_model_Some:
  "cv_keep_best lib self k s (Some m) (bs, bm, mv) = (r, bs', bm', mv') \<Longrightarrow>
   bm' = bm \<or> bm' = Some m"
  by (auto simp: cv_keep_best_def split: if_splits option.splits)

lemma cv_try_model:
  "cv_try lib self k (bs, bm, mv) = (r, bs', bm', mv') \<Longrightarrow>
   bm' = bm \<or> (\<exists>m. bm' = Some m \<and> hmm_fit lib k (random_state self) (X self, lengths self) = Some m)"
  by (auto simp: cv_try_def Let_def split: if_splits option.splits sum.splits prod.splits
      dest: cv_keep_best_model cv_keep_best_model_Some)

lemma cv_loop_model:
  "cv_loop lib self ks (bs, bm, mv) = (bs', bm', mv') \<Longrightarrow>
   bm' = bm \<or> (\<exists>k\<in>set ks. \<exists>m. bm' = Some m \<and>
                  hmm_fit lib k (random_state self) (X self, lengths self) = Some m)"
proof (induction ks arbitrary: bs bm mv)
  case Nil
  then show ?case by simp
next
  case (Cons k ks)
  obtain r bs1 bm1 mv1 where t: "cv_try lib self k (bs, bm, mv) = (r, bs1, bm1, mv1)"
    by (cases "cv_try lib self k (bs, bm, mv)") auto
  with Cons.prems have "cv_loop lib self ks (bs1, bm1, mv1) = (bs', bm', mv')" by simp
  from Cons.IH [OF this] cv_try_model [OF t] show ?case by auto
qed

text \<open>
  Claim C5. A model returned by \<^verbatim>\<open>SelectorCV.select\<close> is the fit, for a state count of the
  search range, on the word's full training data \<^verbatim>\<open>(self.X, self.lengths)\<close>; the models
  fit on the folds are never returned. (With a single training sequence nothing is
  returned, so this is about the search with folds.)
\<close>

theorem select_cv_returns_full_data_fit:
  assumes "select_cv lib self = Some m"
  shows "\<exists>k. min_n_components self \<le> k \<and> k \<le> max_n_components self \<and>
             hmm_fit lib k (random_state self) (X self, lengths self) = Some m"
proof -
  obtain bs' bm' mv' where
    l: "cv_loop lib self [min_n_components self..max_n_components self] (NegInf, None, None)
          = (bs', bm', mv')"
    by (cases "cv_loop lib self [min_n_components self..max_n_components self] (NegInf, None, None)")
      auto
  with assms have "bm' = Some m" by (simp add: select_cv_def)
  with cv_loop_model [OF l] show ?thesis by auto
qed

lemma kfold_3_3_Suc:
  "sklearn_kfold (Suc (Suc (Suc 0))) (Suc (Suc (Suc 0))) = [([1, 2], [0]), ([0, 2], [1]), ([0, 1], [2])]"
  using kfold_3_3 by (simp add: numeral_3_eq_3)

lemma cv_fish_run:
  "select_cv frames_library (cv_selector ''FISH'' 2 3) = Some (2, ([[1], [2], [3], [4]], [1, 2, 1]))"
  by (simp add: select_cv_def cv_try_def cv_keep_best_def cv_selector_def cv_words_def cv_hwords_def
      frames_library_def toy_library_def kfold_3_3_Suc combine_sequences_def upto.simps Let_def)

theorem select_cv_returns_full_data_fit_witness:
  "select_cv frames_library (cv_selector ''FISH'' 2 3) = Some (2, ([[1], [2], [3], [4]], [1, 2, 1])) \<and>
   length (sequences (cv_selector ''FISH'' 2 3)) = 3 \<and>
   (X (cv_selector ''FISH'' 2 3), lengths (cv_selector ''FISH'' 2 3)) = ([[1], [2], [3], [4]], [1, 2, 1]) \<and>
   (\<exists>k. 2 \<le> k \<and> k \<le> 3 \<and>
        hmm_fit frames_library k 14 ([[1], [2], [3], [4]], [1, 2, 1]) =
          Some (2, ([[1], [2], [3], [4]], [1, 2, 1])))"
proof -
  have "length (sequences (cv_selector ''FISH'' 2 3)) = 3"
    and "(X (cv_selector ''FISH'' 2 3), lengths (cv_selector ''FISH'' 2 3))
           = ([[1], [2], [3], [4]], [1, 2, 1])"
    by (simp_all add: cv_selector_def cv_words_def cv_hwords_def)
  moreover have "\<exists>k. 2 \<le> k \<and> k \<le> 3 \<and>
        hmm_fit frames_library k 14 ([[1], [2], [3], [4]], [1, 2, 1]) =
          Some (2, ([[1], [2], [3], [4]], [1, 2, 1]))"
    using select_cv_returns_full_data_fit [OF cv_fish_run]
    by (simp add: cv_selector_def cv_words_def cv_hwords_def)
  ultimately show ?thesis
    using cv_fish_run by blast
qed

lemma cv_splits_fish:
  "cv_splits (toy_library fits scores) (cv_selector ''FISH'' lo hi) =
     [([1, 2], [0]), ([0, 2], [1]), ([0, 1], [2])]"
  by (simp add: cv_splits_def toy_library_def cv_selector_def cv_words_def kfold_3_3_Suc)

lemma skip_example:
  "held_out_score skip_library (cv_selector ''FISH'' 2 2) 2 ([1, 2], [0]) = None"
  "held_out_score skip_library (cv_selector ''FISH'' 2 2) 2 ([0, 2], [1]) = Some (- 2)"
  "held_out_score skip_library (cv_selector ''FISH'' 2 2) 2 ([0, 1], [2]) = Some (- 1)"
  "hmm_fit skip_library 2 14 ([[1], [2], [3], [4]], [1, 2, 1]) = Some (2, ([[1], [2], [3], [4]], [1, 2, 1]))"
  by (simp_all add: held_out_score_def skip_library_def toy_library_def cv_selector_def
      cv_words_def combine_sequences_def)

lemma cv_loop_skipped:
  assumes "1 < length (sequences self)" and "\<forall>k\<in>set ks. cv_average lib self k = None"
  shows "\<exists>model'. cv_loop lib self ks (bs, bm, mv) = (bs, bm, model')"
  using assms(2)
proof (induction ks arbitrary: mv)
  case Nil
  then show ?case by simp
next
  case (Cons k ks)
  then have "cv_average lib self k = None" by simp
  from cv_try_skipped [OF assms(1) this, of bs bm mv] obtain e model' where
    "cv_try lib self k (bs, bm, mv) = (Inl e, bs, bm, model')" by blast
  with Cons.IH [of model'] Cons.prems show ?case by simp
qed

text \<open>
  Claim C7, as stated, fails: no \<^verbatim>\<open>try\<close> stands inside the loop over the folds. For FISH and
  the only candidate \<open>k = 2\<close>, the first fold fails to score, the two other folds score
  \<open>-2\<close> and \<open>-1\<close>, and the fit on the full data succeeds; the candidate is skipped as a
  whole and \<^verbatim>\<open>select\<close> returns \<^verbatim>\<open>None\<close>.
\<close>

theorem cv_failed_fold_skips_candidate_example:
  "cv_splits skip_library (cv_selector ''FISH'' 2 2) = [([1, 2], [0]), ([0, 2], [1]), ([0, 1], [2])] \<and>
   held_out_score skip_library (cv_selector ''FISH'' 2 2) 2 ([1, 2], [0]) = None \<and>
   held_out_score skip_library (cv_selector ''FISH'' 2 2) 2 ([0, 2], [1]) = Some (- 2) \<and>
   held_out_score skip_library (cv_selector ''FISH'' 2 2) 2 ([0, 1], [2]) = Some (- 1) \<and>
   hmm_fit skip_library 2 14 ([[1], [2], [3], [4]], [1, 2, 1]) = Some (2, ([[1], [2], [3], [4]], [1, 2, 1])) \<and>
   select_cv skip_library (cv_selector ''FISH'' 2 2) = None"
proof -
  have "select_cv skip_library (cv_selector ''FISH'' 2 2) = None"
    by code_simp
  moreover have "cv_splits skip_library (cv_selector ''FISH'' 2 2)
                   = [([1, 2], [0]), ([0, 2], [1]), ([0, 1], [2])]"
    unfolding skip_library_def by (rule cv_splits_fish)
  ultimately show ?thesis
    using skip_example by blast
qed

text \<open>
  Claim C7, amended. For a candidate \<open>k\<close> with folds, one fold whose fit or score fails
  ends the body of the \<^verbatim>\<open>try\<close>: the candidate is skipped as a whole, \<^verbatim>\<open>best_score\<close> and
  \<^verbatim>\<open>best_model\<close> stay as they were, whatever the other folds score. A candidate all of
  whose folds fit and score is compared by the average of its held-out log-likelihoods.
\<close>

theorem cv_candidate_needs_every_fold:
  assumes "1 < length (sequences self)"
  shows "((\<exists>f\<in>set (cv_splits lib self). held_out_score lib self k f = None) \<longrightarrow>
            (\<exists>e model'. cv_try lib self k (best_score, best_model, model) =
                (Inl e, best_score, best_model, model'))) \<and>
         ((\<forall>f\<in>set (cv_splits lib self). held_out_score lib self k f \<noteq> None) \<and>
            cv_splits lib self \<noteq> [] \<longrightarrow>
            (\<exists>model'. cv_try lib self k (best_score, best_model, model) =
                cv_keep_best lib self k
                  (sum_list (map (\<lambda>f. the (held_out_score lib self k f)) (cv_splits lib self))
                     / real (length (cv_splits lib self)))
                  None (best_score, best_model, model')))"
proof (intro conjI impI)
  assume "\<exists>f\<in>set (cv_splits lib self). held_out_score lib self k f = None"
  then have "cv_average lib self k = None"
    by (force simp: cv_average_def Let_def)
  from cv_try_skipped [OF assms this]
  show "\<exists>e model'. cv_try lib self k (best_score, best_model, model) =
          (Inl e, best_score, best_model, model')" .
next
  assume "(\<forall>f\<in>set (cv_splits lib self). held_out_score lib self k f \<noteq> None) \<and>
            cv_splits lib self \<noteq> []"
  then have "cv_average lib self k =
      Some (sum_list (map (\<lambda>f. the (held_out_score lib self k f)) (cv_splits lib self))
              / real (length (cv_splits lib self)))"
    by (auto simp: cv_average_def Let_def comp_def)
  from cv_try_scored [OF assms this]
  show "\<exists>model'. cv_try lib self k (best_score, best_model, model) =
          cv_keep_best lib self k
            (sum_list (map (\<lambda>f. the (held_out_score lib self k f)) (cv_splits lib self))
               / real (length (cv_splits lib self)))
            None (best_score, best_model, model')" .
qed

theorem cv_candidate_needs_every_fold_witness:
  "1 < length (sequences (cv_selector ''FISH'' 2 2)) \<and>
   ([1, 2], [0]) \<in> set (cv_splits skip_library (cv_selector ''FISH'' 2 2)) \<and>
   held_out_score skip_library (cv_selector ''FISH'' 2 2) 2 ([1, 2], [0]) = None \<and>
   (\<exists>e model'. cv_try skip_library (cv_selector ''FISH'' 2 2) 2 (NegInf, None, None) =
       (Inl e, NegInf, None, model'))"
proof -
  have len: "1 < length (sequences (cv_selector ''FISH'' 2 2))"
    by (simp add: cv_selector_def cv_words_def)
  have mem: "([1, 2], [0]) \<in> set (cv_splits skip_library (cv_selector ''FISH'' 2 2))"
    unfolding skip_library_def cv_splits_fish by simp
  have f: "held_out_score skip_library (cv_selector ''FISH'' 2 2) 2 ([1, 2], [0]) = None"
    by (rule skip_example)
  from mem f have "\<exists>f\<in>set (cv_splits skip_library (cv_selector ''FISH'' 2 2)).
      held_out_score skip_library (cv_selector ''FISH'' 2 2) 2 f = None" by blast
  with cv_candidate_needs_every_fold [OF len, of skip_library 2 NegInf None None]
  have "\<exists>e model'. cv_try skip_library (cv_selector ''FISH'' 2 2) 2 (NegInf, None, None) =
       (Inl e, NegInf, None, model')" by blast
  with len mem f show ?thesis by blast
qed

lemma refit_example:
  "cv_average refit_library (cv_selector ''FISH'' 2 4) 2 = Some (- 4)"
  "cv_average refit_library (cv_selector ''FISH'' 2 4) 3 = Some (- (4 / 3))"
  "cv_average refit_library (cv_selector ''FISH'' 2 4) 4 = Some (- (8 / 3))"
  "hmm_fit refit_library 2 14 ([[1], [2], [3], [4]], [1, 2, 1]) = Some (2, ([[1], [2], [3], [4]], [1, 2, 1]))"
  "hmm_fit refit_library 3 14 ([[1], [2], [3], [4]], [1, 2, 1]) = None"
  "hmm_fit refit_library 4 14 ([[1], [2], [3], [4]], [1, 2, 1]) = Some (4, ([[1], [2], [3], [4]], [1, 2, 1]))"
  by code_simp+

lemma refit_run:
  "select_cv refit_library (cv_selector ''FISH'' 2 4) = Some (2, ([[1], [2], [3], [4]], [1, 2, 1]))"
  by code_simp

lemma cv_keep_best_refit_fails:
  "best_score < Fin s \<Longrightarrow>
   hmm_fit lib k (random_state self) (X self, lengths self) = None \<Longrightarrow>
   cv_keep_best lib self k s None (best_score, best_model, model) =
     (Inl LibraryError, Fin s, best_model, model)"
  by (simp add: cv_keep_best_def)

lemma cv_keep_best_not_better:
  "s' \<le> s \<Longrightarrow>
   cv_keep_best lib self k s' last_model (Fin s, best_model, model) =
     (Inr (), Fin s, best_model, model)"
  by (simp add: cv_keep_best_def)

text \<open>
  Claim C10. \<^verbatim>\<open>best_score\<close> is assigned before the fit on the full data. When candidate
  \<open>k\<close> has the average \<open>s\<close> above \<^verbatim>\<open>best_score\<close> and its fit on the full data raises, the
  state after the candidate has \<^verbatim>\<open>best_score = s\<close> and the old \<^verbatim>\<open>best_model\<close>; a later
  candidate whose average is not above \<open>s\<close> changes nothing. So the returned model can
  belong to a candidate whose average is below that of another candidate of the range
  whose fit on the full data succeeds: there are a library and a selector where this
  happens.
\<close>

theorem cv_best_score_raised_before_refit:
  "(1 < length (sequences self) \<and> cv_average lib self k = Some s \<and> best_score < Fin s \<and>
    hmm_fit lib k (random_state self) (X self, lengths self) = None \<longrightarrow>
      (\<exists>e model'. cv_try lib self k (best_score, best_model, model) =
          (Inl e, Fin s, best_model, model')) \<and>
      (\<forall>k' s' bm mv. cv_average lib self k' = Some s' \<and> s' \<le> s \<longrightarrow>
          (\<exists>model'. cv_try lib self k' (Fin s, bm, mv) = (Inr (), Fin s, bm, model')))) \<and>
   (\<exists>(lib0 :: toy_model library) self0 k_ret k_other m a a'.
      1 < length (sequences self0) \<and>
      select_cv lib0 self0 = Some m \<and>
      min_n_components self0 \<le> k_ret \<and> k_ret \<le> max_n_components self0 \<and>
      hmm_fit lib0 k_ret (random_state self0) (X self0, lengths self0) = Some m \<and>
      cv_average lib0 self0 k_ret = Some a \<and>
      min_n_components self0 \<le> k_other \<and> k_other \<le> max_n_components self0 \<and>
      hmm_fit lib0 k_other (random_state self0) (X self0, lengths self0) \<noteq> None \<and>
      hmm_fit lib0 k_other (random_state self0) (X self0, lengths self0) \<noteq> Some m \<and>
      cv_average lib0 self0 k_other = Some a' \<and> a < a')"
proof (intro conjI impI allI)
  assume h: "1 < length (sequences self) \<and> cv_average lib self k = Some s \<and> best_score < Fin s \<and>
    hmm_fit lib k (random_state self) (X self, lengths self) = None"
  then have len: "1 < length (sequences self)" and avg: "cv_average lib self k = Some s"
    and lt: "best_score < Fin s"
    and fail: "hmm_fit lib k (random_state self) (X self, lengths self) = None"
    by simp_all
  from cv_try_scored [OF len avg, of best_score best_model model]
  show "\<exists>e model'. cv_try lib self k (best_score, best_model, model) =
          (Inl e, Fin s, best_model, model')"
    by (auto simp: cv_keep_best_refit_fails [OF lt fail])
  fix k' s' bm mv
  assume "cv_average lib self k' = Some s' \<and> s' \<le> s"
  then have avg': "cv_average lib self k' = Some s'" and le: "s' \<le> s" by simp_all
  from cv_try_scored [OF len avg', of "Fin s" bm mv]
  show "\<exists>model'. cv_try lib self k' (Fin s, bm, mv) = (Inr (), Fin s, bm, model')"
    by (auto simp: cv_keep_best_not_better [OF le])
next
  let ?S = "cv_selector ''FISH'' 2 4"
  let ?full = "([[1], [2], [3], [4]], [1, 2, 1]) :: xlengths"
  have sel: "1 < length (sequences ?S)" "min_n_components ?S = 2" "max_n_components ?S = 4"
    "random_state ?S = 14" "(X ?S, lengths ?S) = ?full"
    by (simp_all add: cv_selector_def cv_words_def cv_hwords_def)
  have "1 < length (sequences ?S) \<and>
      select_cv refit_library ?S = Some (2, ?full) \<and>
      min_n_components ?S \<le> 2 \<and> 2 \<le> max_n_components ?S \<and>
      hmm_fit refit_library 2 (random_state ?S) (X ?S, lengths ?S) = Some (2, ?full) \<and>
      cv_average refit_library ?S 2 = Some (- 4) \<and>
      min_n_components ?S \<le> 4 \<and> 4 \<le> max_n_components ?S \<and>
      hmm_fit refit_library 4 (random_state ?S) (X ?S, lengths ?S) \<noteq> None \<and>
      hmm_fit refit_library 4 (random_state ?S) (X ?S, lengths ?S) \<noteq> Some (2, ?full) \<and>
      cv_average refit_library ?S 4 = Some (- (8 / 3)) \<and> (- 4 :: real) < - (8 / 3)"
    using refit_run refit_example by (simp add: cv_selector_def cv_words_def cv_hwords_def)
  then show "\<exists>(lib0 :: toy_model library) self0 k_ret k_other m a a'.
      1 < length (sequences self0) \<and>
      select_cv lib0 self0 = Some m \<and>
      min_n_components self0 \<le> k_ret \<and> k_ret \<le> max_n_components self0 \<and>
      hmm_fit lib0 k_ret (random_state self0) (X self0, lengths self0) = Some m \<and>
      cv_average lib0 self0 k_ret = Some a \<and>
      min_n_components self0 \<le> k_other \<and> k_other \<le> max_n_components self0 \<and>
      hmm_fit lib0 k_other (random_state self0) (X self0, lengths self0) \<noteq> None \<and>
      hmm_fit lib0 k_other (random_state self0) (X self0, lengths self0) \<noteq> Some m \<and>
      cv_average lib0 self0 k_other = Some a' \<and> a < a'"
    by blast
qed

theorem cv_best_score_raised_before_refit_witness:
  "1 < length (sequences (cv_selector ''FISH'' 2 4)) \<and>
   cv_average refit_library (cv_selector ''FISH'' 2 4) 3 = Some (- (4 / 3)) \<and>
   Fin (- 4) < Fin (- (4 / 3)) \<and>
   hmm_fit refit_library 3 (random_state (cv_selector ''FISH'' 2 4))
     (X (cv_selector ''FISH'' 2 4), lengths (cv_selector ''FISH'' 2 4)) = None \<and>
   (\<exists>e model'. cv_try refit_library (cv_selector ''FISH'' 2 4) 3
        (Fin (- 4), Some (2, ([[1], [2], [3], [4]], [1, 2, 1])), None) =
      (Inl e, Fin (- (4 / 3)), Some (2, ([[1], [2], [3], [4]], [1, 2, 1])), model')) \<and>
   cv_average refit_library (cv_selector ''FISH'' 2 4) 4 = Some (- (8 / 3)) \<and>
   (\<exists>model'. cv_try refit_library (cv_selector ''FISH'' 2 4) 4
        (Fin (- (4 / 3)), Some (2, ([[1], [2], [3], [4]], [1, 2, 1])), None) =
      (Inr (), Fin (- (4 / 3)), Some (2, ([[1], [2], [3], [4]], [1, 2, 1])), model')) \<and>
   select_cv refit_library (cv_selector ''FISH'' 2 4) = Some (2, ([[1], [2], [3], [4]], [1, 2, 1]))"
proof -
  let ?S = "cv_selector ''FISH'' 2 4"
  let ?m = "(2, ([[1], [2], [3], [4]], [1, 2, 1])) :: toy_model"
  have len: "1 < length (sequences ?S)"
    by (simp add: cv_selector_def cv_words_def)
  have avg: "cv_average refit_library ?S 3 = Some (- (4 / 3))"
    by (rule refit_example)
  have lt: "Fin (- 4) < Fin (- (4 / 3))" by simp
  have fail: "hmm_fit refit_library 3 (random_state ?S) (X ?S, lengths ?S) = None"
    using refit_example(5) by (simp add: cv_selector_def cv_hwords_def)
  have avg4: "cv_average refit_library ?S 4 = Some (- (8 / 3))"
    by (rule refit_example)
  have le: "- (8 / 3) \<le> (- (4 / 3) :: real)" by simp
  from cv_best_score_raised_before_refit
    [of ?S refit_library 3 "- (4 / 3)" "Fin (- 4)" "Some ?m" None]
  have gen: "(\<exists>e model'. cv_try refit_library ?S 3 (Fin (- 4), Some ?m, None) =
          (Inl e, Fin (- (4 / 3)), Some ?m, model')) \<and>
      (\<forall>k' s' bm mv. cv_average refit_library ?S k' = Some s' \<and> s' \<le> - (4 / 3) \<longrightarrow>
          (\<exists>model'. cv_try refit_library ?S k' (Fin (- (4 / 3)), bm, mv) =
             (Inr (), Fin (- (4 / 3)), bm, model')))"
    using len avg lt fail by blast
  then have "\<exists>model'. cv_try refit_library ?S 4 (Fin (- (4 / 3)), Some ?m, None) =
             (Inr (), Fin (- (4 / 3)), Some ?m, model')"
    using avg4 le by blast
  with gen len avg lt fail avg4 refit_run show ?thesis by blast
qed

text \<open>
  Claim C9. \<^verbatim>\<open>SelectorConstant.select\<close> returns the model fit with \<^verbatim>\<open>n_constant\<close> states on
  the word's data, or \<^verbatim>\<open>None\<close> when that fit fails; changing \<^verbatim>\<open>min_n_components\<close> and
  \<^verbatim>\<open>max_n_components\<close> does not change the result.
\<close>

theorem select_constant_is_fit_at_n_constant:
  "select_constant lib self =
     hmm_fit lib (n_constant self) (random_state self) (X self, lengths self) \<and>
   select_constant lib (self\<lparr>min_n_components := lo, max_n_components := hi\<rparr>) =
     select_constant lib self"
  by (simp add: select_constant_def base_model_def split: option.splits)

theorem select_constant_is_fit_at_n_constant_witness:
  "n_constant (cv_selector ''FISH'' 2 4) = 3 \<and>
   select_constant frames_library (cv_selector ''FISH'' 2 4) =
     Some (3, ([[1], [2], [3], [4]], [1, 2, 1])) \<and>
   select_constant refit_library (cv_selector ''FISH'' 2 4) = None \<and>
   select_constant frames_library (cv_selector ''FISH'' 2 4\<lparr>min_n_components := 7, max_n_components := 5\<rparr>) =
     Some (3, ([[1], [2], [3], [4]], [1, 2, 1]))"
proof -
  have sel: "n_constant (cv_selector ''FISH'' 2 4) = 3"
    "random_state (cv_selector ''FISH'' 2 4) = 14"
    "X (cv_selector ''FISH'' 2 4) = [[1], [2], [3], [4]]"
    "lengths (cv_selector ''FISH'' 2 4) = [1, 2, 1]"
    by (simp_all add: cv_selector_def cv_hwords_def)
  have a: "select_constant frames_library (cv_selector ''FISH'' 2 4) =
      Some (3, ([[1], [2], [3], [4]], [1, 2, 1]))"
    using select_constant_is_fit_at_n_constant [of frames_library "cv_selector ''FISH'' 2 4"]
    unfolding sel by (simp add: frames_library_def toy_library_def)
  have b: "select_constant refit_library (cv_selector ''FISH'' 2 4) = None"
    using select_constant_is_fit_at_n_constant [of refit_library "cv_selector ''FISH'' 2 4"]
    unfolding sel by (simp add: refit_library_def toy_library_def)
  have c: "select_constant frames_library
      (cv_selector ''FISH'' 2 4\<lparr>min_n_components := 7, max_n_components := 5\<rparr>) =
      Some (3, ([[1], [2], [3], [4]], [1, 2, 1]))"
    using select_constant_is_fit_at_n_constant [of frames_library _ 7 5] a by simp
  from sel(1) a b c show ?thesis by blast
qed

text \<open>
  Claim C8, as stated, fails: the constructor does not look at the search range. With the
  word present it returns a selector for \<open>min = 5 > max = 2\<close> and for \<open>min = 0\<close>.
\<close>

theorem init_accepts_invalid_range:
  "init cv_words cv_hwords ''FISH'' 3 5 2 14 False = Inr (cv_selector ''FISH'' 5 2) \<and>
   \<not> (5 :: int) \<le> 2 \<and>
   init cv_words cv_hwords ''FISH'' 3 0 0 14 False = Inr (cv_selector ''FISH'' 0 0) \<and>
   \<not> (1 :: int) \<le> 0"
  by (simp add: init_def cv_words_def cv_hwords_def cv_selector_def)

text \<open>
  Claim C8, amended. The constructor raises (KeyError) exactly when the target word is
  missing from one of the two lookups; otherwise it returns the selector, with the search
  range stored as given, whatever \<^verbatim>\<open>min_n_components\<close> and \<^verbatim>\<open>max_n_components\<close> are.
\<close>

theorem init_raises_only_for_missing_word:
  "init all_word_sequences all_word_Xlengths word n_const min_n max_n seed verb =
     (if word \<in> fst ` set all_word_sequences \<and> word \<in> fst ` set all_word_Xlengths
      then Inr \<lparr>words = all_word_sequences, hwords = all_word_Xlengths,
                sequences = the (map_of all_word_sequences word),
                X = fst (the (map_of all_word_Xlengths word)),
                lengths = snd (the (map_of all_word_Xlengths word)),
                this_word = word, n_constant = n_const, min_n_components = min_n,
                max_n_components = max_n, random_state = seed, verbose = verb\<rparr>
      else Inl KeyError)"
proof (cases "map_of all_word_sequences word")
  case None
  then have "word \<notin> fst ` set all_word_sequences"
    by (simp add: map_of_eq_None_iff)
  with None show ?thesis by (simp add: init_def)
next
  case s: (Some seqs)
  then have m: "word \<in> fst ` set all_word_sequences"
    by (metis map_of_eq_None_iff option.distinct(1))
  show ?thesis
  proof (cases "map_of all_word_Xlengths word")
    case None
    then have "word \<notin> fst ` set all_word_Xlengths"
      by (simp add: map_of_eq_None_iff)
    with None show ?thesis by (simp add: init_def s)
  next
    case (Some xl)
    then have "word \<in> fst ` set all_word_Xlengths"
      by (metis map_of_eq_None_iff option.distinct(1))
    with m s Some show ?thesis by (simp add: init_def split: prod.splits)
  qed
qed

theorem init_raises_only_for_missing_word_witness:
  "init cv_words cv_hwords ''WHO'' 3 2 10 14 False = Inl KeyError \<and>
   init cv_words [] ''FISH'' 3 2 10 14 False = Inl KeyError \<and>
   init cv_words cv_hwords ''FISH'' 3 10 2 14 False = Inr (cv_selector ''FISH'' 10 2)"
proof -
  have "init cv_words cv_hwords ''WHO'' 3 2 10 14 False = Inl KeyError"
    using init_raises_only_for_missing_word [of cv_words cv_hwords "''WHO''" 3 2 10 14 False]
    by (simp add: cv_words_def)
  moreover have "init cv_words [] ''FISH'' 3 2 10 14 False = Inl KeyError"
    using init_raises_only_for_missing_word [of cv_words "[]" "''FISH''" 3 2 10 14 False]
    by simp
  moreover have "init cv_words cv_hwords ''FISH'' 3 10 2 14 False = Inr (cv_selector ''FISH'' 10 2)"
    using init_raises_only_for_missing_word [of cv_words cv_hwords "''FISH''" 3 10 2 14 False]
    by (simp add: cv_words_def cv_hwords_def cv_selector_def)
  ultimately show ?thesis by blast
qed

section \<open>Properties of SelectorBIC\<close>

lemma bic_try_spec:
  "(case bic_try lib self k of Inl e \<Rightarrow> None | Inr r \<Rightarrow> Some r) = bic_spec lib self k"
  by (simp add: bic_try_def bic_spec_def base_model_def Let_def split: option.splits)

lemma bic_loop_Cons:
  "bic_loop lib self (k # ks) st = bic_loop lib self ks (bic_step lib self k st)"
  by (cases st; cases "bic_try lib self k")
    (auto simp: bic_step_def bic_try_spec [symmetric] split: prod.splits)

lemma Fin_less_PosInf: "Fin b < PosInf"
  by simp

lemma bic_step_inv:
  assumes "bic_inv lib self seen st"
  shows "bic_inv lib self (seen @ [k]) (bic_step lib self k st)"
proof (cases "bic_spec lib self k")
  case None
  then have st: "bic_step lib self k st = st" by (simp add: bic_step_def)
  show ?thesis
  proof (cases "snd st")
    case n: None
    with assms None show ?thesis by (auto simp: st bic_inv_def)
  next
    case (Some m)
    with assms obtain ks1 k0 ks2 b where
      "seen = ks1 @ k0 # ks2" "bic_spec lib self k0 = Some (m, b)" "fst st = Fin b"
      "\<forall>k'\<in>set ks1. \<forall>m' b'. bic_spec lib self k' = Some (m', b') \<longrightarrow> b < b'"
      "\<forall>k'\<in>set ks2. \<forall>m' b'. bic_spec lib self k' = Some (m', b') \<longrightarrow> b \<le> b'"
      by (auto simp: bic_inv_def)
    then have "seen @ [k] = ks1 @ k0 # (ks2 @ [k]) \<and> bic_spec lib self k0 = Some (m, b) \<and>
        fst st = Fin b \<and>
        (\<forall>k'\<in>set ks1. \<forall>m' b'. bic_spec lib self k' = Some (m', b') \<longrightarrow> b < b') \<and>
        (\<forall>k'\<in>set (ks2 @ [k]). \<forall>m' b'. bic_spec lib self k' = Some (m', b') \<longrightarrow> b \<le> b')"
      using None by auto
    then show ?thesis unfolding st bic_inv_def Some by (simp only: option.case) blast
  qed
next
  case (Some r)
  obtain m' b' where r: "r = (m', b')" by (cases r)
  note sp = Some [unfolded r]
  show ?thesis
  proof (cases "Fin b' < fst st")
    case True
    then have st: "bic_step lib self k st = (Fin b', Some m')"
      by (simp add: bic_step_def sp)
    have "\<forall>k'\<in>set seen. \<forall>m'' b''. bic_spec lib self k' = Some (m'', b'') \<longrightarrow> b' < b''"
    proof (cases "snd st")
      case None
      with assms show ?thesis by (auto simp: bic_inv_def)
    next
      case (Some m)
      with assms obtain ks1 k0 ks2 b where
        s: "seen = ks1 @ k0 # ks2" "bic_spec lib self k0 = Some (m, b)" "fst st = Fin b"
        "\<forall>k'\<in>set ks1. \<forall>m' b'. bic_spec lib self k' = Some (m', b') \<longrightarrow> b < b'"
        "\<forall>k'\<in>set ks2. \<forall>m' b'. bic_spec lib self k' = Some (m', b') \<longrightarrow> b \<le> b'"
        by (auto simp: bic_inv_def)
      from True s(3) have "b' < b" by simp
      with s show ?thesis by fastforce
    qed
    then have "seen @ [k] = seen @ k # [] \<and> bic_spec lib self k = Some (m', b') \<and>
        fst (Fin b', Some m') = Fin b' \<and>
        (\<forall>k'\<in>set seen. \<forall>m'' b''. bic_spec lib self k' = Some (m'', b'') \<longrightarrow> b' < b'') \<and>
        (\<forall>k'\<in>set []. \<forall>m'' b''. bic_spec lib self k' = Some (m'', b'') \<longrightarrow> b' \<le> b'')"
      using sp by simp
    then show ?thesis unfolding st bic_inv_def by (simp only: option.case snd_conv) blast
  next
    case False
    then have st: "bic_step lib self k st = st"
      by (simp add: bic_step_def sp)
    show ?thesis
    proof (cases "snd st")
      case None
      with assms have "fst st = PosInf" by (simp add: bic_inv_def)
      with False show ?thesis by simp
    next
      case (Some m)
      with assms obtain ks1 k0 ks2 b where
        s: "seen = ks1 @ k0 # ks2" "bic_spec lib self k0 = Some (m, b)" "fst st = Fin b"
        "\<forall>k'\<in>set ks1. \<forall>m' b'. bic_spec lib self k' = Some (m', b') \<longrightarrow> b < b'"
        "\<forall>k'\<in>set ks2. \<forall>m' b'. bic_spec lib self k' = Some (m', b') \<longrightarrow> b \<le> b'"
        by (auto simp: bic_inv_def)
      from False s(3) have "b \<le> b'" by simp
      with s sp have "seen @ [k] = ks1 @ k0 # (ks2 @ [k]) \<and> bic_spec lib self k0 = Some (m, b) \<and>
        fst st = Fin b \<and>
        (\<forall>k'\<in>set ks1. \<forall>m' b'. bic_spec lib self k' = Some (m', b') \<longrightarrow> b < b') \<and>
        (\<forall>k'\<in>set (ks2 @ [k]). \<forall>m' b'. bic_spec lib self k' = Some (m', b') \<longrightarrow> b \<le> b')"
        by auto
      then show ?thesis unfolding st bic_inv_def Some by (simp only: option.case) blast
    qed
  qed
qed

lemma bic_loop_inv:
  "bic_inv lib self seen st \<Longrightarrow> bic_inv lib self (seen @ ks) (bic_loop lib self ks st)"
proof (induction ks arbitrary: seen st)
  case Nil
  then show ?case by simp
next
  case (Cons k ks)
  from Cons.IH [OF bic_step_inv [OF Cons.prems, of k]] show ?case
    by (simp add: bic_loop_Cons)
qed

lemma upto_before:
  assumes "[lo..hi] = ks1 @ k # ks2" and "lo \<le> k'" and "k' \<le> hi" and "k' < k"
  shows "k' \<in> set ks1"
proof -
  have "sorted (ks1 @ k # ks2)" using assms(1) sorted_upto [of lo hi] by simp
  then have "\<forall>y\<in>set ks2. k \<le> y" by (simp add: sorted_append)
  moreover have "k' \<in> set (ks1 @ k # ks2)" using assms(1-3) by (metis atLeastAtMost_iff set_upto)
  ultimately show ?thesis using assms(4) by auto
qed

text \<open>
  Claim C3. For each candidate \<open>k\<close> the code computes what the spec says: the model, \<open>p\<close>
  and \<open>BIC = -2 L + p ln N\<close>, and skips \<open>k\<close> when the fit or the score fails. If every
  candidate of the range fails, \<^verbatim>\<open>select\<close> returns \<^verbatim>\<open>None\<close>. If one succeeds, it returns the
  model of a candidate whose BIC is minimal among the successful ones (the first such
  candidate in the search order). The word has at least one frame.
\<close>

theorem select_bic_minimum:
  assumes "X self \<noteq> []"
  shows "(\<forall>k. (case bic_try lib self k of Inl e \<Rightarrow> None | Inr r \<Rightarrow> Some r) = bic_spec lib self k) \<and>
    ((\<forall>k. min_n_components self \<le> k \<and> k \<le> max_n_components self \<longrightarrow>
          bic_spec lib self k = None) \<longrightarrow> select_bic lib self = None) \<and>
    ((\<exists>k. min_n_components self \<le> k \<and> k \<le> max_n_components self \<and>
          bic_spec lib self k \<noteq> None) \<longrightarrow>
       (\<exists>k m b. min_n_components self \<le> k \<and> k \<le> max_n_components self \<and>
          bic_spec lib self k = Some (m, b) \<and> select_bic lib self = Some m \<and>
          (\<forall>k' m' b'. min_n_components self \<le> k' \<and> k' \<le> max_n_components self \<and>
             bic_spec lib self k' = Some (m', b') \<longrightarrow> b \<le> b' \<and> (k' < k \<longrightarrow> b < b'))))"
proof -
  let ?lo = "min_n_components self" and ?hi = "max_n_components self"
  let ?st = "bic_loop lib self [?lo..?hi] (PosInf, None)"
  have "bic_inv lib self [] (PosInf, None)" by (simp add: bic_inv_def)
  from bic_loop_inv [OF this, of "[?lo..?hi]"]
  have inv: "bic_inv lib self [?lo..?hi] ?st" by simp
  have sel: "select_bic lib self = snd ?st" by (simp add: select_bic_def)
  have none: "select_bic lib self = None"
    if "\<forall>k. ?lo \<le> k \<and> k \<le> ?hi \<longrightarrow> bic_spec lib self k = None"
  proof (cases "snd ?st")
    case None
    then show ?thesis by (simp add: sel)
  next
    case (Some m)
    with inv obtain ks1 k ks2 b where
      s: "[?lo..?hi] = ks1 @ k # ks2" "bic_spec lib self k = Some (m, b)"
      by (auto simp: bic_inv_def)
    from s(1) have "k \<in> set [?lo..?hi]" by simp
    then have "?lo \<le> k \<and> k \<le> ?hi" by simp
    with s(2) that show ?thesis by auto
  qed
  have some: "\<exists>k m b. ?lo \<le> k \<and> k \<le> ?hi \<and>
          bic_spec lib self k = Some (m, b) \<and> select_bic lib self = Some m \<and>
          (\<forall>k' m' b'. ?lo \<le> k' \<and> k' \<le> ?hi \<and>
             bic_spec lib self k' = Some (m', b') \<longrightarrow> b \<le> b' \<and> (k' < k \<longrightarrow> b < b'))"
    if "\<exists>k. ?lo \<le> k \<and> k \<le> ?hi \<and> bic_spec lib self k \<noteq> None"
  proof (cases "snd ?st")
    case None
    with inv have "\<forall>k\<in>set [?lo..?hi]. bic_spec lib self k = None"
      by (simp add: bic_inv_def)
    with that show ?thesis by auto
  next
    case (Some m)
    with inv obtain ks1 k ks2 b where
      s: "[?lo..?hi] = ks1 @ k # ks2" "bic_spec lib self k = Some (m, b)"
      "\<forall>k'\<in>set ks1. \<forall>m' b'. bic_spec lib self k' = Some (m', b') \<longrightarrow> b < b'"
      "\<forall>k'\<in>set ks2. \<forall>m' b'. bic_spec lib self k' = Some (m', b') \<longrightarrow> b \<le> b'"
      by (auto simp: bic_inv_def)
    from s(1) have "k \<in> set [?lo..?hi]" by simp
    then have k: "?lo \<le> k" "k \<le> ?hi" by simp_all
    have "b \<le> b' \<and> (k' < k \<longrightarrow> b < b')"
      if h: "?lo \<le> k'" "k' \<le> ?hi" "bic_spec lib self k' = Some (m', b')" for k' m' b'
    proof -
      have "k' \<in> set (ks1 @ k # ks2)" using h(1,2) s(1) by (metis atLeastAtMost_iff set_upto)
      then have "b \<le> b'" using s(2-4) h(3) by fastforce
      moreover have "b < b'" if "k' < k"
        using upto_before [OF s(1) h(1,2) that] s(3) h(3) by blast
      ultimately show ?thesis by blast
    qed
    with k s(2) Some show ?thesis unfolding sel by blast
  qed
  from none some show ?thesis by (simp only: bic_try_spec) blast
qed

lemma bic_example:
  "bic_spec bic_library (cv_selector ''FISH'' 2 4) 2 =
     Some ((2, ([[1], [2], [3], [4]], [1, 2, 1])), 16 + 7 * ln 4)"
  "bic_spec bic_library (cv_selector ''FISH'' 2 4) 3 = None"
  "bic_spec bic_library (cv_selector ''FISH'' 2 4) 4 =
     Some ((4, ([[1], [2], [3], [4]], [1, 2, 1])), 32 + 23 * ln 4)"
  by (simp_all add: bic_spec_def bic_library_def toy_library_def cv_selector_def cv_hwords_def)

theorem select_bic_minimum_witness:
  "X (cv_selector ''FISH'' 2 4) \<noteq> [] \<and>
   bic_spec bic_library (cv_selector ''FISH'' 2 4) 2 =
     Some ((2, ([[1], [2], [3], [4]], [1, 2, 1])), 16 + 7 * ln 4) \<and>
   bic_spec bic_library (cv_selector ''FISH'' 2 4) 3 = None \<and>
   bic_spec bic_library (cv_selector ''FISH'' 2 4) 4 =
     Some ((4, ([[1], [2], [3], [4]], [1, 2, 1])), 32 + 23 * ln 4) \<and>
   select_bic bic_library (cv_selector ''FISH'' 2 4) = Some (2, ([[1], [2], [3], [4]], [1, 2, 1]))"
proof -
  let ?S = "cv_selector ''FISH'' 2 4"
  have x: "X ?S \<noteq> []" by (simp add: cv_selector_def cv_hwords_def)
  have r: "min_n_components ?S = 2" "max_n_components ?S = 4"
    by (simp_all add: cv_selector_def)
  have ln4: "0 < ln (4 :: real)" by simp
  have "\<exists>k. min_n_components ?S \<le> k \<and> k \<le> max_n_components ?S \<and>
          bic_spec bic_library ?S k \<noteq> None"
    using bic_example(1) unfolding r by (intro exI [of _ 2]) simp
  with select_bic_minimum [OF x, of bic_library] obtain k m b where
    k: "2 \<le> k" "k \<le> 4" and sp: "bic_spec bic_library ?S k = Some (m, b)"
    and sel: "select_bic bic_library ?S = Some m"
    and least: "\<And>k' m' b'. 2 \<le> k' \<and> k' \<le> 4 \<and> bic_spec bic_library ?S k' = Some (m', b')
                  \<Longrightarrow> b \<le> b'"
    unfolding r by blast
  from k have "k = 2 \<or> k = 3 \<or> k = 4" by arith
  then have "k = 2"
  proof (elim disjE)
    assume "k = 3"
    with sp bic_example(2) show ?thesis by simp
  next
    assume k4: "k = 4"
    with sp bic_example(3) have "b = 32 + 23 * ln 4" by simp
    moreover from least [of 2, OF conjI [OF _ conjI [OF _ bic_example(1)]]]
    have "b \<le> 16 + 7 * ln 4" by simp
    ultimately show ?thesis using ln4 by simp
  qed
  with sp bic_example(1) have "m = (2, ([[1], [2], [3], [4]], [1, 2, 1]))" by simp
  with sel x bic_example show ?thesis by blast
qed

section \<open>Properties of SelectorDIC\<close>

lemma sum_other_scores_fail:
  "None \<in> set (map (other_score lib self m) ws) \<Longrightarrow>
   \<exists>e. sum_other_scores lib self m ws acc = Inl e"
  by (induction ws arbitrary: acc) (auto simp: other_score_def split: option.splits)

lemma sum_other_scores_ok:
  "None \<notin> set (map (other_score lib self m) ws) \<Longrightarrow>
   sum_other_scores lib self m ws acc =
     Inr (acc + sum_list (map (\<lambda>w. the (other_score lib self m w)) ws))"
proof (induction ws arbitrary: acc)
  case Nil
  then show ?case by simp
next
  case (Cons w ws)
  from Cons.prems obtain l where l: "other_score lib self m w = Some l"
    by (cases "other_score lib self m w") auto
  from Cons.prems have "None \<notin> set (map (other_score lib self m) ws)" by auto
  from Cons.IH [OF this, of "acc + l"] l show ?case
    by (auto simp: other_score_def add.assoc split: option.splits)
qed

lemma length_filter_neq:
  "distinct xs \<Longrightarrow> x \<in> set xs \<Longrightarrow> length (filter (\<lambda>w. w \<noteq> x) xs) = length xs - 1"
proof (induction xs)
  case Nil
  then show ?case by simp
next
  case (Cons y ys)
  show ?case
  proof (cases "y = x")
    case True
    with Cons.prems have "x \<notin> set ys" by simp
    then have "filter (\<lambda>w. w \<noteq> x) ys = ys" by (auto simp: filter_id_conv)
    with True show ?thesis by simp
  next
    case False
    with Cons.prems have "x \<in> set ys" "distinct ys" by auto
    with Cons.IH have "length (filter (\<lambda>w. w \<noteq> x) ys) = length ys - 1" by simp
    moreover from \<open>x \<in> set ys\<close> have "0 < length ys" by (cases ys) auto
    ultimately show ?thesis using False by simp
  qed
qed

lemma dic_try_spec:
  assumes "distinct (map fst (words self))" and "this_word self \<in> fst ` set (words self)"
    and "2 \<le> length (words self)"
  shows "(case dic_try lib self (filter (\<lambda>word. word \<noteq> this_word self) (map fst (words self))) k of
            Inl e \<Rightarrow> None | Inr r \<Rightarrow> Some r) = dic_spec lib self k"
proof -
  define ws where "ws = filter (\<lambda>word. word \<noteq> this_word self) (map fst (words self))"
  have spec: "dic_spec lib self k =
     (case hmm_fit lib k (random_state self) (X self, lengths self) of
        None \<Rightarrow> None
      | Some m \<Rightarrow>
          (case hmm_score lib m (X self, lengths self) of
             None \<Rightarrow> None
           | Some L \<Rightarrow>
               if None \<in> set (map (other_score lib self m) ws) then None
               else Some (m, L - sum_list (map the (map (other_score lib self m) ws))
                                  / real (length (map (other_score lib self m) ws)))))"
    unfolding dic_spec_def Let_def ws_def ..
  have len: "length ws = length (words self) - 1"
    unfolding ws_def using length_filter_neq [OF assms(1), of "this_word self"] assms(2) by simp
  have nz: "int (length (words self)) - 1 \<noteq> 0" using assms(3) by simp
  have "real (length ws) = real (length (words self) - 1)"
    by (simp only: len)
  also have "\<dots> = real (length (words self)) - 1"
    using assms(3) by (simp add: of_nat_diff)
  finally have den: "(of_int (int (length (words self)) - 1) :: real) = real (length ws)"
    by simp
  have "(case dic_try lib self ws k of Inl e \<Rightarrow> None | Inr r \<Rightarrow> Some r) = dic_spec lib self k"
  proof (cases "hmm_fit lib k (random_state self) (X self, lengths self)")
    case None
    then show ?thesis by (simp add: dic_try_def spec base_model_def)
  next
    case m: (Some m)
    show ?thesis
    proof (cases "hmm_score lib m (X self, lengths self)")
      case None
      then show ?thesis by (simp add: dic_try_def spec base_model_def m)
    next
      case L: (Some L)
      show ?thesis
      proof (cases "None \<in> set (map (other_score lib self m) ws)")
        case True
        from sum_other_scores_fail [OF True, of 0] obtain e where
          "sum_other_scores lib self m ws 0 = Inl e" by blast
        with True show ?thesis
          by (simp add: dic_try_def spec base_model_def m L)
      next
        case False
        have "sum_other_scores lib self m ws 0 =
            Inr (sum_list (map (\<lambda>w. the (other_score lib self m w)) ws))"
          using sum_other_scores_ok [OF False, of 0] by simp
        moreover have "map the (map (other_score lib self m) ws) =
            map (\<lambda>w. the (other_score lib self m w)) ws" by simp
        ultimately show ?thesis using False nz
          by (simp add: dic_try_def spec base_model_def m L den comp_def del: of_int_diff)
      qed
    qed
  qed
  then show ?thesis unfolding ws_def .
qed

lemma dic_loop_Cons:
  assumes "distinct (map fst (words self))" and "this_word self \<in> fst ` set (words self)"
    and "2 \<le> length (words self)"
  shows "dic_loop lib self (filter (\<lambda>word. word \<noteq> this_word self) (map fst (words self))) (k # ks) st =
         dic_loop lib self (filter (\<lambda>word. word \<noteq> this_word self) (map fst (words self))) ks
           (dic_step lib self k st)"
proof -
  define ws where "ws = filter (\<lambda>word. word \<noteq> this_word self) (map fst (words self))"
  have sp: "dic_spec lib self k = (case dic_try lib self ws k of Inl e \<Rightarrow> None | Inr r \<Rightarrow> Some r)"
    unfolding ws_def using dic_try_spec [OF assms, of lib k] by simp
  have "dic_loop lib self ws (k # ks) st = dic_loop lib self ws ks (dic_step lib self k st)"
    by (cases st; cases "dic_try lib self ws k") (auto simp: dic_step_def sp split: prod.splits)
  then show ?thesis unfolding ws_def .
qed

lemma dic_step_inv:
  assumes "dic_inv lib self seen st"
  shows "dic_inv lib self (seen @ [k]) (dic_step lib self k st)"
proof (cases "dic_spec lib self k")
  case None
  then have st: "dic_step lib self k st = st" by (simp add: dic_step_def)
  show ?thesis
  proof (cases "snd st")
    case n: None
    with assms None show ?thesis by (auto simp: st dic_inv_def)
  next
    case (Some m)
    with assms obtain ks1 k0 ks2 d where
      "seen = ks1 @ k0 # ks2" "dic_spec lib self k0 = Some (m, d)" "fst st = Fin d"
      "\<forall>k'\<in>set ks1. \<forall>m' d'. dic_spec lib self k' = Some (m', d') \<longrightarrow> d' < d"
      "\<forall>k'\<in>set ks2. \<forall>m' d'. dic_spec lib self k' = Some (m', d') \<longrightarrow> d' \<le> d"
      by (auto simp: dic_inv_def)
    then have "seen @ [k] = ks1 @ k0 # (ks2 @ [k]) \<and> dic_spec lib self k0 = Some (m, d) \<and>
        fst st = Fin d \<and>
        (\<forall>k'\<in>set ks1. \<forall>m' d'. dic_spec lib self k' = Some (m', d') \<longrightarrow> d' < d) \<and>
        (\<forall>k'\<in>set (ks2 @ [k]). \<forall>m' d'. dic_spec lib self k' = Some (m', d') \<longrightarrow> d' \<le> d)"
      using None by auto
    then show ?thesis unfolding st dic_inv_def Some by (simp only: option.case) blast
  qed
next
  case (Some r)
  obtain m' d' where r: "r = (m', d')" by (cases r)
  note sp = Some [unfolded r]
  show ?thesis
  proof (cases "fst st < Fin d'")
    case True
    then have st: "dic_step lib self k st = (Fin d', Some m')"
      by (simp add: dic_step_def sp)
    have "\<forall>k'\<in>set seen. \<forall>m'' d''. dic_spec lib self k' = Some (m'', d'') \<longrightarrow> d'' < d'"
    proof (cases "snd st")
      case None
      with assms show ?thesis by (auto simp: dic_inv_def)
    next
      case (Some m)
      with assms obtain ks1 k0 ks2 d where
        s: "seen = ks1 @ k0 # ks2" "dic_spec lib self k0 = Some (m, d)" "fst st = Fin d"
        "\<forall>k'\<in>set ks1. \<forall>m' d'. dic_spec lib self k' = Some (m', d') \<longrightarrow> d' < d"
        "\<forall>k'\<in>set ks2. \<forall>m' d'. dic_spec lib self k' = Some (m', d') \<longrightarrow> d' \<le> d"
        by (auto simp: dic_inv_def)
      from True s(3) have "d < d'" by simp
      with s show ?thesis by fastforce
    qed
    then have "seen @ [k] = seen @ k # [] \<and> dic_spec lib self k = Some (m', d') \<and>
        fst (Fin d', Some m') = Fin d' \<and>
        (\<forall>k'\<in>set seen. \<forall>m'' d''. dic_spec lib self k' = Some (m'', d'') \<longrightarrow> d'' < d') \<and>
        (\<forall>k'\<in>set []. \<forall>m'' d''. dic_spec lib self k' = Some (m'', d'') \<longrightarrow> d'' \<le> d')"
      using sp by simp
    then show ?thesis unfolding st dic_inv_def by (simp only: option.case snd_conv) blast
  next
    case False
    then have st: "dic_step lib self k st = st"
      by (simp add: dic_step_def sp)
    show ?thesis
    proof (cases "snd st")
      case None
      with assms have "fst st = NegInf" by (simp add: dic_inv_def)
      with False show ?thesis by simp
    next
      case (Some m)
      with assms obtain ks1 k0 ks2 d where
        s: "seen = ks1 @ k0 # ks2" "dic_spec lib self k0 = Some (m, d)" "fst st = Fin d"
        "\<forall>k'\<in>set ks1. \<forall>m' d'. dic_spec lib self k' = Some (m', d') \<longrightarrow> d' < d"
        "\<forall>k'\<in>set ks2. \<forall>m' d'. dic_spec lib self k' = Some (m', d') \<longrightarrow> d' \<le> d"
        by (auto simp: dic_inv_def)
      from False s(3) have "d' \<le> d" by simp
      with s sp have "seen @ [k] = ks1 @ k0 # (ks2 @ [k]) \<and> dic_spec lib self k0 = Some (m, d) \<and>
        fst st = Fin d \<and>
        (\<forall>k'\<in>set ks1. \<forall>m' d'. dic_spec lib self k' = Some (m', d') \<longrightarrow> d' < d) \<and>
        (\<forall>k'\<in>set (ks2 @ [k]). \<forall>m' d'. dic_spec lib self k' = Some (m', d') \<longrightarrow> d' \<le> d)"
        by auto
      then show ?thesis unfolding st dic_inv_def Some by (simp only: option.case) blast
    qed
  qed
qed

lemma dic_loop_inv:
  assumes "distinct (map fst (words self))" and "this_word self \<in> fst ` set (words self)"
    and "2 \<le> length (words self)"
  shows "dic_inv lib self seen st \<Longrightarrow>
    dic_inv lib self (seen @ ks)
      (dic_loop lib self (filter (\<lambda>word. word \<noteq> this_word self) (map fst (words self))) ks st)"
proof (induction ks arbitrary: seen st)
  case Nil
  then show ?case by simp
next
  case (Cons k ks)
  from Cons.IH [OF dic_step_inv [OF Cons.prems, of k]] show ?case
    by (simp add: dic_loop_Cons [OF assms])
qed

text \<open>
  Claim C4. For a vocabulary of at least two words (the keys of the dict are distinct and
  the target word is one of them, as the constructor requires), the code computes for
  each candidate \<open>k\<close> what the spec says: the model and \<open>DIC = L - mean\<close> of the model's
  log-likelihoods on the data of every other word; it skips \<open>k\<close> when the fit or one of
  the scores fails. If every candidate of the range fails, \<^verbatim>\<open>select\<close> returns \<^verbatim>\<open>None\<close>; if
  one succeeds, it returns the model of a candidate whose DIC is maximal among the
  successful ones (the first such candidate in the search order).
\<close>

theorem select_dic_maximum:
  assumes "distinct (map fst (words self))" and "this_word self \<in> fst ` set (words self)"
    and "2 \<le> length (words self)"
  shows "(\<forall>k. (case dic_try lib self
                     (filter (\<lambda>word. word \<noteq> this_word self) (map fst (words self))) k of
                 Inl e \<Rightarrow> None | Inr r \<Rightarrow> Some r) = dic_spec lib self k) \<and>
    ((\<forall>k. min_n_components self \<le> k \<and> k \<le> max_n_components self \<longrightarrow>
          dic_spec lib self k = None) \<longrightarrow> select_dic lib self = None) \<and>
    ((\<exists>k. min_n_components self \<le> k \<and> k \<le> max_n_components self \<and>
          dic_spec lib self k \<noteq> None) \<longrightarrow>
       (\<exists>k m d. min_n_components self \<le> k \<and> k \<le> max_n_components self \<and>
          dic_spec lib self k = Some (m, d) \<and> select_dic lib self = Some m \<and>
          (\<forall>k' m' d'. min_n_components self \<le> k' \<and> k' \<le> max_n_components self \<and>
             dic_spec lib self k' = Some (m', d') \<longrightarrow> d' \<le> d \<and> (k' < k \<longrightarrow> d' < d))))"
proof -
  let ?lo = "min_n_components self" and ?hi = "max_n_components self"
  let ?ws = "filter (\<lambda>word. word \<noteq> this_word self) (map fst (words self))"
  let ?st = "dic_loop lib self ?ws [?lo..?hi] (NegInf, None)"
  have "dic_inv lib self [] (NegInf, None)" by (simp add: dic_inv_def)
  from dic_loop_inv [OF assms this, of "[?lo..?hi]"]
  have inv: "dic_inv lib self [?lo..?hi] ?st" by simp
  have sel: "select_dic lib self = snd ?st" by (simp add: select_dic_def)
  have none: "select_dic lib self = None"
    if "\<forall>k. ?lo \<le> k \<and> k \<le> ?hi \<longrightarrow> dic_spec lib self k = None"
  proof (cases "snd ?st")
    case None
    then show ?thesis by (simp add: sel)
  next
    case (Some m)
    with inv obtain ks1 k ks2 d where
      s: "[?lo..?hi] = ks1 @ k # ks2" "dic_spec lib self k = Some (m, d)"
      by (auto simp: dic_inv_def)
    from s(1) have "k \<in> set [?lo..?hi]" by simp
    then have "?lo \<le> k \<and> k \<le> ?hi" by simp
    with s(2) that show ?thesis by auto
  qed
  have some: "\<exists>k m d. ?lo \<le> k \<and> k \<le> ?hi \<and>
          dic_spec lib self k = Some (m, d) \<and> select_dic lib self = Some m \<and>
          (\<forall>k' m' d'. ?lo \<le> k' \<and> k' \<le> ?hi \<and>
             dic_spec lib self k' = Some (m', d') \<longrightarrow> d' \<le> d \<and> (k' < k \<longrightarrow> d' < d))"
    if "\<exists>k. ?lo \<le> k \<and> k \<le> ?hi \<and> dic_spec lib self k \<noteq> None"
  proof (cases "snd ?st")
    case None
    with inv have "\<forall>k\<in>set [?lo..?hi]. dic_spec lib self k = None"
      by (simp add: dic_inv_def)
    with that show ?thesis by auto
  next
    case (Some m)
    with inv obtain ks1 k ks2 d where
      s: "[?lo..?hi] = ks1 @ k # ks2" "dic_spec lib self k = Some (m, d)"
      "\<forall>k'\<in>set ks1. \<forall>m' d'. dic_spec lib self k' = Some (m', d') \<longrightarrow> d' < d"
      "\<forall>k'\<in>set ks2. \<forall>m' d'. dic_spec lib self k' = Some (m', d') \<longrightarrow> d' \<le> d"
      by (auto simp: dic_inv_def)
    from s(1) have "k \<in> set [?lo..?hi]" by simp
    then have k: "?lo \<le> k" "k \<le> ?hi" by simp_all
    have "d' \<le> d \<and> (k' < k \<longrightarrow> d' < d)"
      if h: "?lo \<le> k'" "k' \<le> ?hi" "dic_spec lib self k' = Some (m', d')" for k' m' d'
    proof -
      have "k' \<in> set (ks1 @ k # ks2)" using h(1,2) s(1) by (metis atLeastAtMost_iff set_upto)
      then have "d' \<le> d" using s(2-4) h(3) by fastforce
      moreover have "d' < d" if "k' < k"
        using upto_before [OF s(1) h(1,2) that] s(3) h(3) by blast
      ultimately show ?thesis by blast
    qed
    with k s(2) Some show ?thesis unfolding sel by blast
  qed
  from none some dic_try_spec [OF assms, of lib] show ?thesis by blast
qed

lemma dic_example:
  "dic_spec bic_library (cv_selector ''FISH'' 2 4) 2 =
     Some ((2, ([[1], [2], [3], [4]], [1, 2, 1])), - 4)"
  "dic_spec bic_library (cv_selector ''FISH'' 2 4) 3 = None"
  "dic_spec bic_library (cv_selector ''FISH'' 2 4) 4 =
     Some ((4, ([[1], [2], [3], [4]], [1, 2, 1])), - 8)"
  by code_simp+

theorem select_dic_maximum_witness:
  "distinct (map fst (words (cv_selector ''FISH'' 2 4))) \<and>
   this_word (cv_selector ''FISH'' 2 4) \<in> fst ` set (words (cv_selector ''FISH'' 2 4)) \<and>
   2 \<le> length (words (cv_selector ''FISH'' 2 4)) \<and>
   dic_spec bic_library (cv_selector ''FISH'' 2 4) 2 =
     Some ((2, ([[1], [2], [3], [4]], [1, 2, 1])), - 4) \<and>
   dic_spec bic_library (cv_selector ''FISH'' 2 4) 3 = None \<and>
   dic_spec bic_library (cv_selector ''FISH'' 2 4) 4 =
     Some ((4, ([[1], [2], [3], [4]], [1, 2, 1])), - 8) \<and>
   select_dic bic_library (cv_selector ''FISH'' 2 4) = Some (2, ([[1], [2], [3], [4]], [1, 2, 1]))"
proof -
  let ?S = "cv_selector ''FISH'' 2 4"
  have h: "distinct (map fst (words ?S))" "this_word ?S \<in> fst ` set (words ?S)"
    "2 \<le> length (words ?S)"
    by (simp_all add: cv_selector_def cv_words_def)
  have r: "min_n_components ?S = 2" "max_n_components ?S = 4"
    by (simp_all add: cv_selector_def)
  have "\<exists>k. min_n_components ?S \<le> k \<and> k \<le> max_n_components ?S \<and>
          dic_spec bic_library ?S k \<noteq> None"
    using dic_example(1) unfolding r by (intro exI [of _ 2]) simp
  with select_dic_maximum [OF h, of bic_library] obtain k m d where
    k: "2 \<le> k" "k \<le> 4" and sp: "dic_spec bic_library ?S k = Some (m, d)"
    and sel: "select_dic bic_library ?S = Some m"
    and most: "\<And>k' m' d'. 2 \<le> k' \<and> k' \<le> 4 \<and> dic_spec bic_library ?S k' = Some (m', d')
                  \<Longrightarrow> d' \<le> d"
    unfolding r by blast
  from k have "k = 2 \<or> k = 3 \<or> k = 4" by arith
  then have "k = 2"
  proof (elim disjE)
    assume "k = 3"
    with sp dic_example(2) show ?thesis by simp
  next
    assume k4: "k = 4"
    with sp dic_example(3) have "d = - 8" by simp
    moreover from most [of 2, OF conjI [OF _ conjI [OF _ dic_example(1)]]]
    have "- 4 \<le> d" by simp
    ultimately show ?thesis by simp
  qed
  with sp dic_example(1) have "m = (2, ([[1], [2], [3], [4]], [1, 2, 1]))" by simp
  with sel h dic_example show ?thesis by blast
qed

end
